theory Spec2Isabelle
  imports Main "HOL-Library.Word"
begin

section \<open>A shallow embedding of SimpleCam (SimpleCam.cpp, SimpleCam.h)\<close>

text \<open>
  SimpleCam drives a camera through the vendor camera library, a vendor image writer and an
  imported event loop. The embedding keeps the program's own control flow and state and
  makes everything the vendor decides a field of one record, \<open>vendor\<close>: the camera list,
  every return code the program tests, the objects the vendor hands out, the order in which
  completions arrive. Every effect of the program (a vendor call that changes something, a
  line on \<open>std::cout\<close> or \<open>std::cerr\<close>, an image written) is appended to a trace, in program
  order. Reading a null handle of the program's own, or element 0 of an empty vector, is a
  \<open>fault\<close>: the C++ program has no defined behaviour there.
\<close>

subsection \<open>Vendor objects\<close>

type_synonym stream_ptr = nat

datatype location =
  CameraLocationFront | CameraLocationBack | CameraLocationExternal | OtherLocation int

text \<open>A \<open>Camera\<close>: its \<open>id()\<close> and the two properties \<open>cameraName\<close> reads.\<close>

record camera_dev =
  cam_id :: string
  cam_location :: location
  cam_model :: "string option"

text \<open>
  A \<open>StreamConfiguration\<close>: \<open>size.width\<close>, \<open>size.height\<close>, \<open>stride\<close> (all
  \<open>unsigned int\<close>), the printed form of \<open>pixelFormat\<close>, and the \<open>Stream *\<close> that
  \<open>stream()\<close> returns.
\<close>

record stream_configuration =
  size_width :: "32 word"
  size_height :: "32 word"
  stride :: "32 word"
  pixelFormat :: string
  cfg_stream :: stream_ptr

record plane =
  bytesused :: "32 word"

record frame_metadata =
  sequence :: "32 word"
  planes :: "plane list"

text \<open>
  A \<open>FrameBuffer\<close> with its \<open>metadata()\<close>; \<open>mapped\<close> is what
  \<open>MappedFrameBuffer(buffer, MapFlag::Read).planes()\<close> yields for it, one byte span for each
  plane that could be mapped.
\<close>

record frame_buffer =
  fb_id :: nat
  metadata :: frame_metadata
  mapped :: "8 word list list"

datatype request_status = RequestPending | RequestComplete | RequestCancelled

datatype control_id = AnalogueGain | ExposureTime | ExposureValue

datatype reuse_flag = Default | ReuseBuffers

text \<open>
  A \<open>Request\<close>: \<open>buffers()\<close> is the \<open>BufferMap\<close> in its iteration order, \<open>controls()\<close> the
  values set so far. \<open>req_id\<close> stands for the address of the object.
\<close>

record request =
  req_id :: nat
  status :: request_status
  buffers :: "(stream_ptr \<times> frame_buffer) list"
  controls :: "(control_id \<times> int) list"

datatype stream_role = Raw | StillCapture | VideoRecording | Viewfinder

datatype mat_type = CV_8UC1

datatype mat_step = AUTO_STEP

text \<open>
  The \<open>cv::Mat\<close> header built by \<open>cv::Mat(rows, cols, type, data)\<close>: no step argument is
  passed, so the step is \<open>AUTO_STEP\<close>. \<open>mat_data\<close> is the span the data pointer points into.
\<close>

record mat =
  mat_rows :: "32 word"
  mat_cols :: "32 word"
  mat_kind :: mat_type
  mat_stride :: mat_step
  mat_data :: "8 word list"

subsection \<open>The imported event loop\<close>

text \<open>
  Modelled from the spec: \<open>event_loop.h\<close> is imported and not part of the sources. The
  loop redirects work from the vendor's callback thread to the application's thread:
  \<open>callLater\<close> queues a call, \<open>timeout\<close> arms the timer, and \<open>exec\<close> (further down) runs
  the queued calls until the loop exits and returns its exit status.
\<close>

datatype callback = ProcessRequest request

record event_loop =
  pending :: "callback list"
  timeout_sec :: "nat option"

definition callLater :: "event_loop \<Rightarrow> callback \<Rightarrow> event_loop" where
  "callLater l cb = l\<lparr>pending := pending l @ [cb]\<rparr>"

definition timeout :: "event_loop \<Rightarrow> nat \<Rightarrow> event_loop" where
  "timeout l sec = l\<lparr>timeout_sec := Some sec\<rparr>"

text \<open>
  One step of a running loop: the vendor delivers a completed request to the slot connected
  to \<open>Camera::requestCompleted\<close>, or the loop runs the oldest queued call.
\<close>

datatype loop_step = Completion request | Dispatch

subsection \<open>What the vendor decides\<close>

text \<open>
  Return codes are indexed by the number of earlier calls of the same function, so that the
  vendor may answer each call differently. \<open>generateConfiguration\<close> returns a unique
  pointer, null (\<open>None\<close>) when the roles cannot be satisfied, to a configuration that holds
  a list of stream configurations, which may be empty.
  \<open>ostream_seconds\<close> and \<open>to_string_seconds\<close> are the two library renderings of
  \<open>(double)clock() / CLOCKS_PER_SEC\<close> (by \<open>operator<<\<close> and by \<open>std::to_string\<close>), given
  the value of \<open>clock()\<close>.
\<close>

record vendor =
  cameras :: "camera_dev list"
  generateConfiguration :: "camera_dev \<Rightarrow> stream_role list \<Rightarrow> stream_configuration list option"
  cfg_toString :: "stream_configuration \<Rightarrow> string"
  configure_ret :: "nat \<Rightarrow> int"
  validate :: "stream_configuration \<Rightarrow> stream_configuration"
  cam_properties :: "(nat \<times> string) list"
  cam_controls :: "(string \<times> string \<times> string) list"
  allocate_ret :: "nat \<Rightarrow> int"
  alloc_buffers :: "stream_ptr \<Rightarrow> frame_buffer list"
  createRequest :: "nat \<Rightarrow> request option"
  addBuffer_ret :: "nat \<Rightarrow> int"
  stream_config :: "stream_ptr \<Rightarrow> stream_configuration"
  clock_ticks :: "nat \<Rightarrow> int"
  ostream_seconds :: "int \<Rightarrow> string"
  to_string_seconds :: "int \<Rightarrow> string"
  loop_schedule :: "loop_step list"
  exec_ret :: int

subsection \<open>Effects\<close>

datatype allocator_obj = FrameBufferAllocator camera_dev

datatype call =
    Cout string
  | Cerr string
  | CM_start
  | CM_stop
  | Cam_acquire camera_dev
  | Cam_generateConfiguration camera_dev "stream_role list"
  | Cam_configure camera_dev "stream_configuration list"
  | Cfg_validate
  | New_allocator camera_dev
  | Alloc_allocate stream_ptr
  | Cam_createRequest camera_dev
  | Req_addBuffer nat stream_ptr nat
  | Req_set_control nat control_id int
  | Connect_requestCompleted camera_dev
  | Cam_start camera_dev
  | Cam_queueRequest camera_dev nat
  | Sig_requestCompleted nat request_status
  | Map_frame_buffer nat
  | Imwrite string mat
  | Req_reuse nat reuse_flag
  | Loop_exec
  | Cam_stop camera_dev
  | Alloc_free allocator_obj "stream_ptr option"
  | Delete_allocator allocator_obj
  | Cam_release camera_dev
  | Cam_reset

datatype fault = NullDereference | OutOfRange

subsection \<open>Program state\<close>

text \<open>
  The process-wide state: the two objects SimpleCam.cpp defines at namespace scope
  (\<open>SimpleCam::camera\<close>, a shared pointer that starts out null, and \<open>SimpleCam::loop\<close>),
  the number of \<open>clock()\<close> calls made so far, and the trace. SimpleCam.h declares
  \<open>camera\<close> and \<open>loop\<close> without \<open>static\<close>, which does not agree with these
  definitions nor with their use in the static functions \<open>requestComplete\<close> and
  \<open>processRequest\<close>; the functions are embedded as SimpleCam.cpp writes them.
\<close>

record proc =
  camera :: "camera_dev option"
  loop :: event_loop
  clock_calls :: nat
  trace :: "call list"

datatype manager_obj = CameraManager

text \<open>
  The members of one \<open>SimpleCam\<close> object. \<open>stream\<close> and \<open>allocator\<close> are raw pointers that
  hold nothing before \<open>start\<close> assigns them; \<open>cm\<close> is a unique pointer, null before
  \<open>start\<close>.
\<close>

record simple_cam =
  stream :: "stream_ptr option"
  allocator :: "allocator_obj option"
  cm :: "manager_obj option"
  requests :: "request list"

definition EXIT_SUCCESS :: int where
  "EXIT_SUCCESS = 0"

definition EXIT_FAILURE :: int where
  "EXIT_FAILURE = 1"

definition TIMEOUT_SEC :: nat where
  "TIMEOUT_SEC = 3"

definition emit :: "call list \<Rightarrow> proc \<Rightarrow> proc" where
  "emit cs p = p\<lparr>trace := trace p @ cs\<rparr>"

definition clock :: "vendor \<Rightarrow> proc \<Rightarrow> int \<times> proc" where
  "clock V p = (clock_ticks V (clock_calls p), p\<lparr>clock_calls := Suc (clock_calls p)\<rparr>)"

subsection \<open>Text output\<close>

definition endl :: string where
  "endl = [CHR 0x0A]"

definition digit_char :: "nat \<Rightarrow> char" where
  "digit_char d = ''0123456789'' ! d"

text \<open>\<open>operator<<\<close> on an unsigned integer: its decimal digits.\<close>

function dec :: "nat \<Rightarrow> string" where
  "dec n = (if n < 10 then [digit_char n] else dec (n div 10) @ [digit_char (n mod 10)])"
  by pat_completeness auto
termination
  by (relation "measure (\<lambda>n. n)") auto

declare dec.simps [simp del]

text \<open>\<open>operator<<\<close> on an \<open>int\<close>.\<close>

definition dec_int :: "int \<Rightarrow> string" where
  "dec_int i = (if i < 0 then ''-'' @ dec (nat (- i)) else dec (nat i))"

text \<open>
  \<open>std::setw(6)\<close> with \<open>std::setfill('0')\<close> for the next item: fill characters go in front
  until the field is six characters wide; a longer item is printed as it is.
\<close>

definition setw6_fill0 :: "string \<Rightarrow> string" where
  "setw6_fill0 s = replicate (6 - length s) (CHR ''0'') @ s"

subsection \<open>cameraName\<close>

definition cameraName :: "camera_dev \<Rightarrow> string" where
  "cameraName cam =
     (let name =
        (case cam_location cam of
           CameraLocationFront \<Rightarrow> ''Internal front camera''
         | CameraLocationBack \<Rightarrow> ''Internal back camera''
         | CameraLocationExternal \<Rightarrow>
             ''External camera'' @
             (case cam_model cam of
                Some m \<Rightarrow> '' '' @ [CHR 0x27] @ m @ [CHR 0x27]
              | None \<Rightarrow> '''')
         | OtherLocation _ \<Rightarrow> '''')
      in name @ '' ('' @ cam_id cam @ '')'')"

subsection \<open>start\<close>

text \<open>
  \<open>CameraManager::get\<close>: the camera with the given id, null when there is none. The source
  calls it with the id of \<open>cameras()[0]\<close> and notes that the result "is of course the same
  as \<open>cm->cameras()[0]\<close>".
\<close>

definition cm_get :: "camera_dev list \<Rightarrow> string \<Rightarrow> camera_dev option" where
  "cm_get cams ident = find (\<lambda>c. cam_id c = ident) cams"

definition msg_no_cameras :: string where
  "msg_no_cameras = ''No cameras were identified on the system.'' @ endl"

definition msg_configuration_failed :: string where
  "msg_configuration_failed = ''CONFIGURATION FAILED!'' @ endl"

definition msg_cant_allocate :: string where
  "msg_cant_allocate = ''Can't allocate buffers'' @ endl"

definition msg_cant_create :: string where
  "msg_cant_create = ''Can't create request'' @ endl"

definition msg_cant_set_buffer :: string where
  "msg_cant_set_buffer = ''Can't set buffer for request'' @ endl"

definition control_line :: "string \<times> string \<times> string \<Rightarrow> call" where
  "control_line c = Cout (fst c @ '': '' @ fst (snd c) @ '' = '' @ snd (snd c) @ endl)"

definition property_line :: "nat \<times> string \<Rightarrow> call" where
  "property_line c = Cout (dec (fst c) @ '': '' @ snd c @ endl)"

text \<open>
  The loop \<open>for (StreamConfiguration &cfg : *config)\<close>; \<open>i\<close> counts the calls of
  \<open>allocate\<close>. The result is \<open>False\<close> when the loop left \<open>start\<close> with \<open>EXIT_FAILURE\<close>.
\<close>

fun allocate_loop :: "vendor \<Rightarrow> nat \<Rightarrow> stream_configuration list \<Rightarrow> proc \<Rightarrow> bool \<times> proc" where
  "allocate_loop V i [] p = (True, p)"
| "allocate_loop V i (cfg # cfgs) p =
     (let p1 = emit [Alloc_allocate (cfg_stream cfg)] p;
          ret = allocate_ret V i
      in if ret < 0 then (False, emit [Cerr msg_cant_allocate] p1)
         else
           let allocated = length (alloc_buffers V (cfg_stream cfg))
           in allocate_loop V (Suc i) cfgs
                (emit [Cout (''Allocated '' @ dec allocated @ '' buffers for stream'' @ endl)] p1))"

text \<open>
  The loop \<open>for (unsigned int i = 0; i < buffers.size(); ++i)\<close>, over the buffers from
  index \<open>i\<close> on. A vector of frame buffers is far shorter than \<open>2 ^ 32\<close>, so the counter
  is a \<open>nat\<close>.
\<close>

fun request_loop ::
  "vendor \<Rightarrow> camera_dev \<Rightarrow> stream_ptr \<Rightarrow> nat \<Rightarrow> frame_buffer list \<Rightarrow> simple_cam \<Rightarrow> proc
     \<Rightarrow> bool \<times> simple_cam \<times> proc" where
  "request_loop V cam st i [] s p = (True, s, p)"
| "request_loop V cam st i (buffer # bufs) s p =
     (let p1 = emit [Cam_createRequest cam] p
      in case createRequest V i of
           None \<Rightarrow> (False, s, emit [Cerr msg_cant_create] p1)
         | Some request \<Rightarrow>
             let p2 = emit [Req_addBuffer (req_id request) st (fb_id buffer)] p1;
                 ret = addBuffer_ret V i
             in if ret < 0 then (False, s, emit [Cerr msg_cant_set_buffer] p2)
                else
                  let request1 = request\<lparr>buffers := buffers request @ [(st, buffer)]\<rparr>;
                      p3 = emit [Req_set_control (req_id request) AnalogueGain 100000,
                                 Req_set_control (req_id request) ExposureTime 100000,
                                 Req_set_control (req_id request) ExposureValue 100000] p2;
                      request2 = request1\<lparr>controls := controls request1 @
                                   [(AnalogueGain, 100000), (ExposureTime, 100000),
                                    (ExposureValue, 100000)]\<rparr>
                  in request_loop V cam st (Suc i) bufs
                       (s\<lparr>requests := requests s @ [request2]\<rparr>) p3)"

text \<open>
  \<open>start\<close>. The source tests neither the pointer returned by \<open>generateConfiguration\<close> nor
  that the configuration has an element 0 before \<open>config->at(0)\<close>: a null pointer and an
  empty configuration are faults here.
\<close>

definition start :: "vendor \<Rightarrow> simple_cam \<Rightarrow> proc \<Rightarrow> fault + (int \<times> simple_cam \<times> proc)" where
  "start V s p =
     (let s1 = s\<lparr>cm := Some CameraManager\<rparr>;
          p1 = emit [CM_start] p;
          p2 = emit (map (\<lambda>c. Cout ('' - '' @ cameraName c @ endl)) (cameras V)) p1
      in if cameras V = [] then
           Inr (EXIT_FAILURE, s1, emit [Cout msg_no_cameras, CM_stop] p2)
         else
           let cameraId = cam_id (cameras V ! 0)
           in case cm_get (cameras V) cameraId of
                None \<Rightarrow> Inl NullDereference
              | Some cam \<Rightarrow>
                  let p3 = emit [Cam_acquire cam] (p2\<lparr>camera := Some cam\<rparr>);
                      p4 = emit [Cam_generateConfiguration cam [Viewfinder]] p3
                  in case generateConfiguration V cam [Viewfinder] of
                       None \<Rightarrow> Inl NullDereference
                     | Some [] \<Rightarrow> Inl OutOfRange
                     | Some (streamConfig # others) \<Rightarrow>
                         let p5 = emit [Cout (''Default viewfinder configuration is: '' @
                                      cfg_toString V streamConfig @ endl)] p4;
                             streamConfig1 =
                               streamConfig\<lparr>size_width := 2592, size_height := 1944\<rparr>;
                             config1 = streamConfig1 # others;
                             p6 = emit [Cam_configure cam config1] p5;
                             retconfig = configure_ret V 0
                         in if retconfig \<noteq> 0 then
                              Inr (EXIT_FAILURE, s1, emit [Cout msg_configuration_failed] p6)
                            else
                              let config2 = map (validate V) config1;
                                  streamConfig2 = validate V streamConfig1;
                                  p7 = emit [Cfg_validate,
                                             Cout (''Validated viewfinder configuration is: '' @
                                               cfg_toString V streamConfig2 @ endl),
                                             Cam_configure cam config2] p6;
                                  p8 = emit ([Cout (''controls:'' @ endl)] @
                                             map control_line (cam_controls V) @
                                             [Cout (''properies:'' @ endl)] @
                                             map property_line (cam_properties V)) p7;
                                  s2 = s1\<lparr>allocator := Some (FrameBufferAllocator cam)\<rparr>;
                                  p9 = emit [New_allocator cam] p8
                              in case allocate_loop V 0 config2 p9 of
                                   (False, p10) \<Rightarrow> Inr (EXIT_FAILURE, s2, p10)
                                 | (True, p10) \<Rightarrow>
                                     let s3 = s2\<lparr>stream := Some (cfg_stream streamConfig2)\<rparr>;
                                         bufs = alloc_buffers V (cfg_stream streamConfig2)
                                     in case request_loop V cam (cfg_stream streamConfig2) 0 bufs
                                               s3 p10 of
                                          (False, s4, p11) \<Rightarrow> Inr (EXIT_FAILURE, s4, p11)
                                        | (True, s4, p11) \<Rightarrow>
                                            Inr (EXIT_SUCCESS, s4,
                                                 emit [Connect_requestCompleted cam,
                                                       Cam_start cam] p11))"

subsection \<open>requestComplete and processRequest\<close>

definition requestComplete :: "request \<Rightarrow> proc \<Rightarrow> proc" where
  "requestComplete request p =
     (if status request = RequestCancelled then p
      else p\<lparr>loop := callLater (loop p) (ProcessRequest request)\<rparr>)"

text \<open>
  The inner loop over \<open>metadata.planes()\<close>. \<open>nplane\<close> is the \<open>unsigned int\<close> counter,
  incremented before it is compared with \<open>planes().size()\<close>, here \<open>sz\<close>.
\<close>

fun print_planes :: "32 word \<Rightarrow> nat \<Rightarrow> plane list \<Rightarrow> call list" where
  "print_planes nplane sz [] = []"
| "print_planes nplane sz (pl # pls) =
     Cout (dec (unat (bytesused pl))) #
     (let nplane1 = nplane + 1
      in (if unat nplane1 < sz then [Cout ''/''] else []) @ print_planes nplane1 sz pls)"

text \<open>The body of the loop over \<open>request->buffers()\<close>, for one pair of the map.\<close>

definition process_buffer :: "vendor \<Rightarrow> stream_ptr \<times> frame_buffer \<Rightarrow> proc \<Rightarrow> fault + proc" where
  "process_buffer V bufferPair p =
     (let st = fst bufferPair;
          buffer = snd bufferPair;
          md = metadata buffer;
          p1 = emit [Cout ('' seq: '' @ setw6_fill0 (dec (unat (sequence md))) @
                       '' bytesused: '')] p;
          p2 = emit (print_planes 0 (length (planes md)) (planes md)) p1;
          cfg = stream_config V st;
          width = size_width cfg;
          height = size_height cfg;
          strd = stride cfg;
          (t1, p3) = clock V p2;
          p4 = emit [Cout ('' size '' @ dec (unat width) @ ''x'' @ dec (unat height) @
                       '' stride '' @ dec (unat strd) @ '' format '' @ pixelFormat cfg @
                       '' sec '' @ ostream_seconds V t1 @ endl)] p3;
          p5 = emit [Map_frame_buffer (fb_id buffer)] p4;
          mem = mapped buffer
      in case mem of
           [] \<Rightarrow> Inl OutOfRange
         | mem0 # _ \<Rightarrow>
             let image = \<lparr>mat_rows = height, mat_cols = width, mat_kind = CV_8UC1,
                           mat_stride = AUTO_STEP, mat_data = mem0\<rparr>;
                 (t2, p6) = clock V p5
             in Inr (emit [Imwrite (''images/img'' @ to_string_seconds V t2 @ ''.png'') image] p6))"

fun process_buffers :: "vendor \<Rightarrow> (stream_ptr \<times> frame_buffer) list \<Rightarrow> proc \<Rightarrow> fault + proc" where
  "process_buffers V [] p = Inr p"
| "process_buffers V (bufferPair # rest) p =
     (case process_buffer V bufferPair p of
        Inl f \<Rightarrow> Inl f
      | Inr p1 \<Rightarrow> process_buffers V rest p1)"

definition processRequest :: "vendor \<Rightarrow> request \<Rightarrow> proc \<Rightarrow> fault + proc" where
  "processRequest V request p =
     (case process_buffers V (buffers request) p of
        Inl f \<Rightarrow> Inl f
      | Inr p1 \<Rightarrow>
          let p2 = emit [Req_reuse (req_id request) ReuseBuffers] p1
          in case camera p2 of
               None \<Rightarrow> Inl NullDereference
             | Some cam \<Rightarrow> Inr (emit [Cam_queueRequest cam (req_id request)] p2))"

subsection \<open>go\<close>

text \<open>The loop \<open>for (std::unique_ptr<Request> &request : requests)\<close>.\<close>

fun queue_requests :: "request list \<Rightarrow> proc \<Rightarrow> fault + proc" where
  "queue_requests [] p = Inr p"
| "queue_requests (request # rest) p =
     (case camera p of
        None \<Rightarrow> Inl NullDereference
      | Some cam \<Rightarrow> queue_requests rest (emit [Cam_queueRequest cam (req_id request)] p))"

text \<open>
  Modelled from the spec: \<open>EventLoop::exec\<close> is imported and not part of the sources. While
  the loop runs, the vendor's thread delivers completions to \<open>requestComplete\<close> (each one is
  recorded in the trace as \<open>Sig_requestCompleted\<close>) and the loop runs the calls queued by
  \<open>callLater\<close>, oldest first, in the order \<open>loop_schedule\<close> fixes; a \<open>Dispatch\<close> with
  nothing queued does nothing.
\<close>

fun exec_steps :: "vendor \<Rightarrow> loop_step list \<Rightarrow> proc \<Rightarrow> fault + proc" where
  "exec_steps V [] p = Inr p"
| "exec_steps V (Completion request # steps) p =
     exec_steps V steps
       (requestComplete request (emit [Sig_requestCompleted (req_id request) (status request)] p))"
| "exec_steps V (Dispatch # steps) p =
     (case pending (loop p) of
        [] \<Rightarrow> exec_steps V steps p
      | ProcessRequest request # cbs \<Rightarrow>
          (case processRequest V request (p\<lparr>loop := (loop p)\<lparr>pending := cbs\<rparr>\<rparr>) of
             Inl f \<Rightarrow> Inl f
           | Inr p1 \<Rightarrow> exec_steps V steps p1))"

definition exec :: "vendor \<Rightarrow> proc \<Rightarrow> fault + (int \<times> proc)" where
  "exec V p =
     (case exec_steps V (loop_schedule V) (emit [Loop_exec] p) of
        Inl f \<Rightarrow> Inl f
      | Inr p1 \<Rightarrow> Inr (exec_ret V, p1))"

definition go :: "vendor \<Rightarrow> simple_cam \<Rightarrow> proc \<Rightarrow> fault + (int \<times> simple_cam \<times> proc)" where
  "go V s p =
     (case queue_requests (requests s) p of
        Inl f \<Rightarrow> Inl f
      | Inr p1 \<Rightarrow>
          let p2 = p1\<lparr>loop := timeout (loop p1) TIMEOUT_SEC\<rparr>
          in case exec V p2 of
               Inl f \<Rightarrow> Inl f
             | Inr (ret, p3) \<Rightarrow>
                 Inr (EXIT_SUCCESS, s,
                      emit [Cout (''Capture ran for '' @ dec TIMEOUT_SEC @ '' seconds and '' @
                              ''stopped with exit status: '' @ dec_int ret @ endl)] p3))"

subsection \<open>finish\<close>

text \<open>
  \<open>delete allocator\<close> leaves the pointer member as it is, so \<open>allocator\<close> keeps its value;
  \<open>camera.reset()\<close> makes the shared handle null.
\<close>

definition finish :: "simple_cam \<Rightarrow> proc \<Rightarrow> fault + (int \<times> simple_cam \<times> proc)" where
  "finish s p =
     (case camera p of
        None \<Rightarrow> Inl NullDereference
      | Some cam \<Rightarrow>
          let p1 = emit [Cam_stop cam] p
          in case allocator s of
               None \<Rightarrow> Inl NullDereference
             | Some alloc \<Rightarrow>
                 let p2 = emit [Alloc_free alloc (stream s), Delete_allocator alloc, Cam_release cam] p1;
                     p3 = emit [Cam_reset] (p2\<lparr>camera := None\<rparr>)
                 in case cm s of
                      None \<Rightarrow> Inl NullDereference
                    | Some m \<Rightarrow> Inr (EXIT_SUCCESS, s, emit [CM_stop] p3))"

text \<open>The state of a process that has just started, and of a freshly constructed object.\<close>

definition initial_proc :: proc where
  "initial_proc = \<lparr>camera = None, loop = \<lparr>pending = [], timeout_sec = None\<rparr>,
                    clock_calls = 0, trace = []\<rparr>"

definition new_simple_cam :: simple_cam where
  "new_simple_cam = \<lparr>stream = None, allocator = None, cm = None, requests = []\<rparr>"

section \<open>Derived notions used in the statements\<close>

subsection \<open>The effects of start, listed\<close>

text \<open>
  The objects \<open>start\<close> works with and the effects it has, written as functions of the vendor
  alone. \<open>start_result\<close> puts them together; that \<open>start\<close> computes exactly
  \<open>start_result\<close> is the lemma \<open>start_eq\<close> below.
\<close>

definition listing_events :: "vendor \<Rightarrow> call list" where
  "listing_events V = map (\<lambda>c. Cout ('' - '' @ cameraName c @ endl)) (cameras V)"

definition first_camera :: "vendor \<Rightarrow> camera_dev" where
  "first_camera V = hd (cameras V)"

text \<open>
  \<open>start_fault\<close>: the fault of \<open>start\<close>, if there is one. \<open>default_config\<close> is the
  configuration \<open>generateConfiguration\<close> returned, when it returned one.
\<close>

definition start_fault :: "vendor \<Rightarrow> fault option" where
  "start_fault V =
     (if cameras V = [] then None
      else case generateConfiguration V (first_camera V) [Viewfinder] of
             None \<Rightarrow> Some NullDereference
           | Some [] \<Rightarrow> Some OutOfRange
           | Some (c # cs) \<Rightarrow> None)"

definition default_config :: "vendor \<Rightarrow> stream_configuration list" where
  "default_config V = the (generateConfiguration V (first_camera V) [Viewfinder])"

definition requested_config :: "vendor \<Rightarrow> stream_configuration list" where
  "requested_config V =
     (hd (default_config V))\<lparr>size_width := 2592, size_height := 1944\<rparr> #
     tl (default_config V)"

definition validated_config :: "vendor \<Rightarrow> stream_configuration list" where
  "validated_config V = map (validate V) (requested_config V)"

definition capture_stream :: "vendor \<Rightarrow> stream_ptr" where
  "capture_stream V = cfg_stream (hd (validated_config V))"

definition acquire_events :: "vendor \<Rightarrow> call list" where
  "acquire_events V =
     [CM_start] @ listing_events V @
     [Cam_acquire (first_camera V),
      Cam_generateConfiguration (first_camera V) [Viewfinder],
      Cout (''Default viewfinder configuration is: '' @
            cfg_toString V (hd (default_config V)) @ endl),
      Cam_configure (first_camera V) (requested_config V)]"

definition validate_events :: "vendor \<Rightarrow> call list" where
  "validate_events V =
     [Cfg_validate,
      Cout (''Validated viewfinder configuration is: '' @
            cfg_toString V (hd (validated_config V)) @ endl),
      Cam_configure (first_camera V) (validated_config V)] @
     [Cout (''controls:'' @ endl)] @ map control_line (cam_controls V) @
     [Cout (''properies:'' @ endl)] @ map property_line (cam_properties V) @
     [New_allocator (first_camera V)]"

fun allocate_ok :: "vendor \<Rightarrow> nat \<Rightarrow> stream_configuration list \<Rightarrow> bool" where
  "allocate_ok V i [] = True"
| "allocate_ok V i (cfg # cfgs) = (\<not> allocate_ret V i < 0 \<and> allocate_ok V (Suc i) cfgs)"

fun allocate_events :: "vendor \<Rightarrow> nat \<Rightarrow> stream_configuration list \<Rightarrow> call list" where
  "allocate_events V i [] = []"
| "allocate_events V i (cfg # cfgs) =
     Alloc_allocate (cfg_stream cfg) #
     (if allocate_ret V i < 0 then [Cerr msg_cant_allocate]
      else Cout (''Allocated '' @ dec (length (alloc_buffers V (cfg_stream cfg))) @
                 '' buffers for stream'' @ endl) # allocate_events V (Suc i) cfgs)"

fun request_ok :: "vendor \<Rightarrow> nat \<Rightarrow> frame_buffer list \<Rightarrow> bool" where
  "request_ok V i [] = True"
| "request_ok V i (buffer # bufs) =
     (createRequest V i \<noteq> None \<and> \<not> addBuffer_ret V i < 0 \<and> request_ok V (Suc i) bufs)"

definition prepared :: "request \<Rightarrow> stream_ptr \<Rightarrow> frame_buffer \<Rightarrow> request" where
  "prepared request st buffer =
     request\<lparr>buffers := buffers request @ [(st, buffer)],
             controls := controls request @
               [(AnalogueGain, 100000), (ExposureTime, 100000), (ExposureValue, 100000)]\<rparr>"

fun created_requests :: "vendor \<Rightarrow> stream_ptr \<Rightarrow> nat \<Rightarrow> frame_buffer list \<Rightarrow> request list" where
  "created_requests V st i [] = []"
| "created_requests V st i (buffer # bufs) =
     (case createRequest V i of
        None \<Rightarrow> []
      | Some request \<Rightarrow>
          if addBuffer_ret V i < 0 then []
          else prepared request st buffer # created_requests V st (Suc i) bufs)"

fun request_events :: "vendor \<Rightarrow> camera_dev \<Rightarrow> stream_ptr \<Rightarrow> nat \<Rightarrow> frame_buffer list \<Rightarrow> call list" where
  "request_events V cam st i [] = []"
| "request_events V cam st i (buffer # bufs) =
     Cam_createRequest cam #
     (case createRequest V i of
        None \<Rightarrow> [Cerr msg_cant_create]
      | Some request \<Rightarrow>
          Req_addBuffer (req_id request) st (fb_id buffer) #
          (if addBuffer_ret V i < 0 then [Cerr msg_cant_set_buffer]
           else [Req_set_control (req_id request) AnalogueGain 100000,
                 Req_set_control (req_id request) ExposureTime 100000,
                 Req_set_control (req_id request) ExposureValue 100000] @
                request_events V cam st (Suc i) bufs))"

definition start_result :: "vendor \<Rightarrow> simple_cam \<Rightarrow> proc \<Rightarrow> int \<times> simple_cam \<times> proc" where
  "start_result V s p =
     (if cameras V = [] then
        (EXIT_FAILURE, s\<lparr>cm := Some CameraManager\<rparr>,
         emit ([CM_start] @ listing_events V @ [Cout msg_no_cameras, CM_stop]) p)
      else if configure_ret V 0 \<noteq> 0 then
        (EXIT_FAILURE, s\<lparr>cm := Some CameraManager\<rparr>,
         (emit (acquire_events V @ [Cout msg_configuration_failed]) p)
           \<lparr>camera := Some (first_camera V)\<rparr>)
      else if \<not> allocate_ok V 0 (validated_config V) then
        (EXIT_FAILURE,
         s\<lparr>cm := Some CameraManager, allocator := Some (FrameBufferAllocator (first_camera V))\<rparr>,
         (emit (acquire_events V @ validate_events V @
                allocate_events V 0 (validated_config V)) p)
           \<lparr>camera := Some (first_camera V)\<rparr>)
      else
        (if request_ok V 0 (alloc_buffers V (capture_stream V)) then EXIT_SUCCESS
         else EXIT_FAILURE,
         s\<lparr>cm := Some CameraManager, allocator := Some (FrameBufferAllocator (first_camera V)),
           stream := Some (capture_stream V),
           requests := requests s @
             created_requests V (capture_stream V) 0 (alloc_buffers V (capture_stream V))\<rparr>,
         (emit (acquire_events V @ validate_events V @
                allocate_events V 0 (validated_config V) @
                request_events V (first_camera V) (capture_stream V) 0
                  (alloc_buffers V (capture_stream V)) @
                (if request_ok V 0 (alloc_buffers V (capture_stream V))
                 then [Connect_requestCompleted (first_camera V), Cam_start (first_camera V)]
                 else [])) p)
           \<lparr>camera := Some (first_camera V)\<rparr>))"

subsection \<open>The effects of processRequest, listed\<close>

text \<open>
  \<open>well_mapped\<close>: every buffer of the map has at least one mapped plane, which is what the
  unchecked \<open>mem[0]\<close> needs. \<open>buffers_events V n\<close> lists the effects of the loop over
  the buffers when \<open>clock()\<close> has been called \<open>n\<close> times before.
\<close>

definition well_mapped :: "(stream_ptr \<times> frame_buffer) list \<Rightarrow> bool" where
  "well_mapped bps = list_all (\<lambda>bp. mapped (snd bp) \<noteq> []) bps"

definition image_of :: "vendor \<Rightarrow> stream_ptr \<times> frame_buffer \<Rightarrow> mat" where
  "image_of V bp =
     \<lparr>mat_rows = size_height (stream_config V (fst bp)),
      mat_cols = size_width (stream_config V (fst bp)),
      mat_kind = CV_8UC1, mat_stride = AUTO_STEP, mat_data = hd (mapped (snd bp))\<rparr>"

definition image_path :: "vendor \<Rightarrow> nat \<Rightarrow> string" where
  "image_path V n = ''images/img'' @ to_string_seconds V (clock_ticks V n) @ ''.png''"

definition size_line :: "vendor \<Rightarrow> nat \<Rightarrow> stream_ptr \<Rightarrow> string" where
  "size_line V n st =
     '' size '' @ dec (unat (size_width (stream_config V st))) @ ''x'' @
     dec (unat (size_height (stream_config V st))) @
     '' stride '' @ dec (unat (stride (stream_config V st))) @
     '' format '' @ pixelFormat (stream_config V st) @
     '' sec '' @ ostream_seconds V (clock_ticks V n) @ endl"

definition buffer_events :: "vendor \<Rightarrow> nat \<Rightarrow> stream_ptr \<times> frame_buffer \<Rightarrow> call list" where
  "buffer_events V n bp =
     [Cout ('' seq: '' @ setw6_fill0 (dec (unat (sequence (metadata (snd bp))))) @ '' bytesused: '')] @
     print_planes 0 (length (planes (metadata (snd bp)))) (planes (metadata (snd bp))) @
     [Cout (size_line V n (fst bp)),
      Map_frame_buffer (fb_id (snd bp)),
      Imwrite (image_path V (Suc n)) (image_of V bp)]"

fun buffers_events :: "vendor \<Rightarrow> nat \<Rightarrow> (stream_ptr \<times> frame_buffer) list \<Rightarrow> call list" where
  "buffers_events V n [] = []"
| "buffers_events V n (bp # rest) = buffer_events V n bp @ buffers_events V (n + 2) rest"

text \<open>
  The line \<open>go\<close> prints last, and the requests a running loop may process without a
  fault.
\<close>

definition exit_line :: "int \<Rightarrow> string" where
  "exit_line ret = ''Capture ran for '' @ dec TIMEOUT_SEC @ '' seconds and '' @
                   ''stopped with exit status: '' @ dec_int ret @ endl"

definition callback_mapped :: "callback \<Rightarrow> bool" where
  "callback_mapped cb = (case cb of ProcessRequest r \<Rightarrow> well_mapped (buffers r))"

definition step_mapped :: "loop_step \<Rightarrow> bool" where
  "step_mapped st = (case st of Completion r \<Rightarrow> well_mapped (buffers r) | Dispatch \<Rightarrow> True)"

subsection \<open>A concrete vendor\<close>

text \<open>
  One back camera, one stream configuration, one buffer with two metadata planes and one
  mapped plane, every call succeeding, and a loop that delivers one completion and runs one
  queued call. It exhibits the hypotheses of the theorems below.
\<close>

definition example_camera :: camera_dev where
  "example_camera = \<lparr>cam_id = ''cam0'', cam_location = CameraLocationBack, cam_model = None\<rparr>"

definition example_cfg :: stream_configuration where
  "example_cfg = \<lparr>size_width = 640, size_height = 480, stride = 640,
                   pixelFormat = ''R8'', cfg_stream = 1\<rparr>"

definition example_buffer :: frame_buffer where
  "example_buffer =
     \<lparr>fb_id = 5, metadata = \<lparr>sequence = 12, planes = [\<lparr>bytesused = 7\<rparr>, \<lparr>bytesused = 9\<rparr>]\<rparr>,
      mapped = [[1, 2, 3]]\<rparr>"

definition example_request :: request where
  "example_request =
     \<lparr>req_id = 0, status = RequestComplete, buffers = [(1, example_buffer)], controls = []\<rparr>"

definition example_vendor :: vendor where
  "example_vendor =
     \<lparr>cameras = [example_camera],
      generateConfiguration = (\<lambda>cam roles. Some [example_cfg]),
      cfg_toString = (\<lambda>cfg. ''cfg''),
      configure_ret = (\<lambda>n. 0),
      validate = (\<lambda>cfg. cfg),
      cam_properties = [],
      cam_controls = [],
      allocate_ret = (\<lambda>n. 1),
      alloc_buffers = (\<lambda>st. [example_buffer]),
      createRequest = (\<lambda>n. Some \<lparr>req_id = n, status = RequestPending, buffers = [],
                                   controls = []\<rparr>),
      addBuffer_ret = (\<lambda>n. 0),
      stream_config = (\<lambda>st. example_cfg),
      clock_ticks = (\<lambda>n. 0),
      ostream_seconds = (\<lambda>t. ''0''),
      to_string_seconds = (\<lambda>t. ''0.000000''),
      loop_schedule = [Completion example_request, Dispatch],
      exec_ret = 0\<rparr>"

text \<open>
  The images a trace writes, with their paths, and the kinds of effect \<open>processRequest\<close>
  has.
\<close>

fun imwrites :: "call list \<Rightarrow> (string \<times> mat) list" where
  "imwrites [] = []"
| "imwrites (Imwrite path img # cs) = (path, img) # imwrites cs"
| "imwrites (c # cs) = imwrites cs"

definition request_effect :: "call \<Rightarrow> bool" where
  "request_effect c =
     (case c of
        Cout _ \<Rightarrow> True
      | Map_frame_buffer _ \<Rightarrow> True
      | Imwrite _ _ \<Rightarrow> True
      | Req_reuse _ _ \<Rightarrow> True
      | Cam_queueRequest _ _ \<Rightarrow> True
      | _ \<Rightarrow> False)"

text \<open>
  The text a trace sends to \<open>std::cout\<close>.
\<close>

fun cout_text :: "call list \<Rightarrow> string" where
  "cout_text [] = []"
| "cout_text (Cout s # cs) = s @ cout_text cs"
| "cout_text (c # cs) = cout_text cs"

text \<open>
  The claim's wording of the plane list: the items in order, a \<open>/\<close> between two consecutive
  items and none after the last.
\<close>

fun join_slash :: "string list \<Rightarrow> string" where
  "join_slash [] = []"
| "join_slash [x] = x"
| "join_slash (x # y # ys) = x @ ''/'' @ join_slash (y # ys)"

definition plane_texts :: "frame_metadata \<Rightarrow> string list" where
  "plane_texts md = map (\<lambda>pl. dec (unat (bytesused pl))) (planes md)"

text \<open>
  The claim's wording of the line printed for one buffer: the sequence number in a field of
  six characters filled with \<open>0\<close> on the left, the \<open>bytesused\<close> values joined by \<open>/\<close>,
  and then the size part. \<open>n\<close> is the number of earlier \<open>clock()\<close> calls.
\<close>

definition metadata_line :: "vendor \<Rightarrow> nat \<Rightarrow> stream_ptr \<times> frame_buffer \<Rightarrow> string" where
  "metadata_line V n bp =
     '' seq: '' @
     replicate (6 - length (dec (unat (sequence (metadata (snd bp)))))) (CHR ''0'') @
     dec (unat (sequence (metadata (snd bp)))) @
     '' bytesused: '' @ join_slash (plane_texts (metadata (snd bp))) @
     size_line V n (fst bp)"

definition planes_fit :: "stream_ptr \<times> frame_buffer \<Rightarrow> bool" where
  "planes_fit bp = (length (planes (metadata (snd bp))) < 2 ^ 32)"


definition failure_message :: "call \<Rightarrow> bool" where
  "failure_message c =
     (c = Cout msg_no_cameras \<or> c = Cout msg_configuration_failed \<or>
      c = Cerr msg_cant_allocate \<or> c = Cerr msg_cant_create \<or> c = Cerr msg_cant_set_buffer)"

text \<open>
  The calls whose answer \<open>start\<close> tests.
\<close>

definition checked_kind :: "call \<Rightarrow> bool" where
  "checked_kind c =
     (case c of
        Cam_configure _ _ \<Rightarrow> True
      | Alloc_allocate _ \<Rightarrow> True
      | Cam_createRequest _ \<Rightarrow> True
      | Req_addBuffer _ _ _ \<Rightarrow> True
      | _ \<Rightarrow> False)"

text \<open>
  Monitors read a trace from left to right. \<open>run step st es\<close> is the state reached from
  \<open>st\<close>, or \<open>None\<close> as soon as an effect is not allowed in the state it meets.
\<close>

fun run :: "('s \<Rightarrow> call \<Rightarrow> 's option) \<Rightarrow> 's \<Rightarrow> call list \<Rightarrow> 's option" where
  "run step st [] = Some st"
| "run step st (c # cs) = (case step st c of None \<Rightarrow> None | Some st1 \<Rightarrow> run step st1 cs)"

text \<open>
  The monitor for "one message, return at once, no call made again". It replays the checked
  calls against the vendor's answers: \<open>Checking nc na nr nb\<close> counts the calls of
  \<open>configure\<close>, \<open>allocate\<close>, \<open>createRequest\<close> and \<open>addBuffer\<close> made so far, and the
  vendor's answer to a call is the one with that index. While every answer is a success, no
  failure message may be printed. After the first failing answer the next effect must be the
  message of that call (\<open>Expect\<close>), and after the message nothing at all may follow
  (\<open>Finished\<close>); so a second call after a failed one is refused. With no camera the message
  is followed by \<open>cm->stop()\<close> and nothing else. Only the first \<open>configure\<close> is a checked
  call.
\<close>

datatype check_state = Checking nat nat nat nat | Expect call | Finished

definition checked_step :: "vendor \<Rightarrow> check_state \<Rightarrow> call \<Rightarrow> check_state option" where
  "checked_step V st c =
     (case st of
        Finished \<Rightarrow> None
      | Expect m \<Rightarrow> if c = m then Some Finished else None
      | Checking nc na nr nb \<Rightarrow>
          (case c of
             Cam_configure _ _ \<Rightarrow>
               if nc = 0 \<and> configure_ret V 0 \<noteq> 0
               then Some (Expect (Cout msg_configuration_failed))
               else Some (Checking (Suc nc) na nr nb)
           | Alloc_allocate _ \<Rightarrow>
               if allocate_ret V na < 0 then Some (Expect (Cerr msg_cant_allocate))
               else Some (Checking nc (Suc na) nr nb)
           | Cam_createRequest _ \<Rightarrow>
               if createRequest V nr = None then Some (Expect (Cerr msg_cant_create))
               else Some (Checking nc na (Suc nr) nb)
           | Req_addBuffer _ _ _ \<Rightarrow>
               if addBuffer_ret V nb < 0 then Some (Expect (Cerr msg_cant_set_buffer))
               else Some (Checking nc na nr (Suc nb))
           | _ \<Rightarrow>
               if c = Cout msg_no_cameras \<and> cameras V = [] then Some (Expect CM_stop)
               else if failure_message c then None
               else Some st))"

text \<open>
  The calls that apply or validate a configuration.
\<close>

definition config_call :: "call \<Rightarrow> bool" where
  "config_call c = (case c of Cam_configure _ _ \<Rightarrow> True | Cfg_validate \<Rightarrow> True | _ \<Rightarrow> False)"

datatype phase = Idle | Acquired | Configured | Allocated | Capturing | Released

text \<open>
  The lifecycle as a monitor: \<open>acquire\<close> only first, \<open>configure\<close> only on an acquired
  camera and before any allocation, \<open>allocate\<close> only after a \<open>configure\<close> and before any request
  is queued, \<open>queueRequest\<close> and \<open>reuse\<close> only after allocation, \<open>release\<close> only after
  allocation, and none of them after \<open>release\<close>.
\<close>

definition phase_step :: "phase \<Rightarrow> call \<Rightarrow> phase option" where
  "phase_step ph c =
     (case c of
        Cam_acquire _ \<Rightarrow> if ph = Idle then Some Acquired else None
      | Cam_configure _ _ \<Rightarrow> if ph = Acquired \<or> ph = Configured then Some Configured else None
      | Alloc_allocate _ \<Rightarrow> if ph = Configured \<or> ph = Allocated then Some Allocated else None
      | Cam_queueRequest _ _ \<Rightarrow> if ph = Allocated \<or> ph = Capturing then Some Capturing else None
      | Req_reuse _ _ \<Rightarrow> if ph = Allocated \<or> ph = Capturing then Some ph else None
      | Cam_release _ \<Rightarrow> if ph = Allocated \<or> ph = Capturing then Some Released else None
      | _ \<Rightarrow> Some ph)"

text \<open>
  Completion before requeue, for the request \<open>rid\<close>: the state counts the completions of
  \<open>rid\<close> that were not cancelled and have not been answered by a \<open>reuse\<close> yet; a \<open>reuse\<close> of
  \<open>rid\<close> needs one.
\<close>

definition credit_step :: "nat \<Rightarrow> nat \<Rightarrow> call \<Rightarrow> nat option" where
  "credit_step rid k c =
     (case c of
        Sig_requestCompleted r st \<Rightarrow>
          Some (if r = rid \<and> st \<noteq> RequestCancelled then Suc k else k)
      | Req_reuse r f \<Rightarrow> if r = rid then (if k = 0 then None else Some (k - 1)) else Some k
      | _ \<Rightarrow> Some k)"

text \<open>
  Queueing and requeueing, on the camera \<open>cam\<close>. Before the loop runs, the state is the
  list of requests still to be queued: a \<open>queueRequest\<close> must be for the first of them, a
  \<open>reuse\<close> is refused, and \<open>exec\<close> may start only when the list is empty. Once the loop
  runs, a \<open>queueRequest\<close> on its own is refused: a request is queued again only by a
  \<open>reuse(ReuseBuffers)\<close> whose next effect is \<open>queueRequest\<close> of that same request.
\<close>

datatype queue_state = Queueing "nat list" | Looping | Reused nat

definition requeue_step :: "camera_dev \<Rightarrow> queue_state \<Rightarrow> call \<Rightarrow> queue_state option" where
  "requeue_step cam qs c =
     (case qs of
        Queueing ids \<Rightarrow>
          (case c of
             Cam_queueRequest cam1 r \<Rightarrow>
               (case ids of
                  [] \<Rightarrow> None
                | i # rest \<Rightarrow> if cam1 = cam \<and> r = i then Some (Queueing rest) else None)
           | Req_reuse r f \<Rightarrow> None
           | Loop_exec \<Rightarrow> if ids = [] then Some Looping else None
           | _ \<Rightarrow> Some (Queueing ids))
      | Looping \<Rightarrow>
          (case c of
             Req_reuse r f \<Rightarrow> if f = ReuseBuffers then Some (Reused r) else None
           | Cam_queueRequest cam1 r \<Rightarrow> None
           | _ \<Rightarrow> Some Looping)
      | Reused r \<Rightarrow>
          (case c of
             Cam_queueRequest cam1 r1 \<Rightarrow> if cam1 = cam \<and> r1 = r then Some Looping else None
           | _ \<Rightarrow> None))"

text \<open>
  The completions of the request \<open>rid\<close> that were not cancelled, and its reuses.
\<close>

definition completed :: "nat \<Rightarrow> call \<Rightarrow> bool" where
  "completed rid c =
     (case c of Sig_requestCompleted r st \<Rightarrow> r = rid \<and> st \<noteq> RequestCancelled | _ \<Rightarrow> False)"

definition reused :: "nat \<Rightarrow> call \<Rightarrow> bool" where
  "reused rid c = (case c of Req_reuse r f \<Rightarrow> r = rid | _ \<Rightarrow> False)"

text \<open>
  The effects the monitors look at, and the number of queued calls for the request \<open>rid\<close>.
\<close>

definition lifecycle_call :: "call \<Rightarrow> bool" where
  "lifecycle_call c =
     (case c of
        Cam_acquire _ \<Rightarrow> True
      | Cam_configure _ _ \<Rightarrow> True
      | Alloc_allocate _ \<Rightarrow> True
      | Cam_queueRequest _ _ \<Rightarrow> True
      | Req_reuse _ _ \<Rightarrow> True
      | Cam_release _ \<Rightarrow> True
      | Sig_requestCompleted _ _ \<Rightarrow> True
      | Loop_exec \<Rightarrow> True
      | _ \<Rightarrow> False)"

definition credits :: "nat \<Rightarrow> callback list \<Rightarrow> nat" where
  "credits rid cbs = length (filter (\<lambda>cb. case cb of ProcessRequest r \<Rightarrow> req_id r = rid) cbs)"

text \<open>
  Completions and reuses, the only effects that change the completion count.
\<close>

definition capture_call :: "call \<Rightarrow> bool" where
  "capture_call c =
     (case c of Sig_requestCompleted _ _ \<Rightarrow> True | Req_reuse _ _ \<Rightarrow> True | _ \<Rightarrow> False)"

text \<open>
  The effects of a successful \<open>start\<close>, of \<open>finish\<close> and of the queue loop of \<open>go\<close>.
\<close>

definition start_events :: "vendor \<Rightarrow> call list" where
  "start_events V =
     acquire_events V @ validate_events V @ allocate_events V 0 (validated_config V) @
     request_events V (first_camera V) (capture_stream V) 0 (alloc_buffers V (capture_stream V)) @
     [Connect_requestCompleted (first_camera V), Cam_start (first_camera V)]"

definition finish_events :: "camera_dev \<Rightarrow> allocator_obj \<Rightarrow> stream_ptr option \<Rightarrow> call list" where
  "finish_events cam alloc sp =
     [Cam_stop cam, Alloc_free alloc sp, Delete_allocator alloc, Cam_release cam, Cam_reset,
      CM_stop]"

text \<open>
  The effects the queue monitor looks at before the loop runs.
\<close>

definition queue_call :: "call \<Rightarrow> bool" where
  "queue_call c =
     (case c of
        Cam_queueRequest _ _ \<Rightarrow> True | Req_reuse _ _ \<Rightarrow> True | Loop_exec \<Rightarrow> True
      | _ \<Rightarrow> False)"

definition queue_events :: "camera_dev \<Rightarrow> request list \<Rightarrow> call list" where
  "queue_events cam rs = map (\<lambda>r. Cam_queueRequest cam (req_id r)) rs"

text \<open>
  Modelled from the spec: the caller of \<open>start\<close>, \<open>go\<close> and \<open>finish\<close> is not part of the
  sources. A run of the program is \<open>start\<close>, then \<open>go\<close>, then \<open>finish\<close> (enumerate
  cameras, negotiate a stream configuration, allocate frame buffers, queue capture requests,
  receive completion callbacks, dump frames to image files, and tear everything down). When
  \<open>start\<close> succeeds and the three calls return, \<open>lifecycle_of_run\<close> gives the effects of
  the run that the monitors look at, in order, and the calls left in the queue of the event
  loop at the end.
\<close>

definition lifecycle_of_run ::
    "vendor \<Rightarrow> simple_cam \<Rightarrow> proc \<Rightarrow> (call list \<times> callback list) option" where
  "lifecycle_of_run V s p =
     (case start V s p of
        Inl f \<Rightarrow> None
      | Inr (rc1, s1, p1) \<Rightarrow>
          if rc1 \<noteq> EXIT_SUCCESS then None
          else (case go V s1 p1 of
                  Inl f \<Rightarrow> None
                | Inr (rc2, s2, p2) \<Rightarrow>
                    (case finish s2 p2 of
                       Inl f \<Rightarrow> None
                     | Inr (rc3, s3, p3) \<Rightarrow>
                         Some (filter lifecycle_call (drop (length (trace p)) (trace p3)),
                               pending (loop p3)))))"

text \<open>
  The vendor of the example with a loop that exits after one completion was delivered and
  before the call queued for it was run.
\<close>

definition cut_short_vendor :: vendor where
  "cut_short_vendor = example_vendor\<lparr>loop_schedule := [Completion example_request]\<rparr>"

section \<open>Properties\<close>

subsection \<open>Basic facts and the closed form of start\<close>

lemma EXIT_codes_distinct: "EXIT_SUCCESS \<noteq> EXIT_FAILURE"
  by (simp add: EXIT_SUCCESS_def EXIT_FAILURE_def)

lemma trace_emit [simp]: "trace (emit cs p) = trace p @ cs"
  and camera_emit [simp]: "camera (emit cs p) = camera p"
  and loop_emit [simp]: "loop (emit cs p) = loop p"
  and clock_calls_emit [simp]: "clock_calls (emit cs p) = clock_calls p"
  by (simp_all add: emit_def)

lemma emit_emit: "emit b (emit a p) = emit (a @ b) p"
  by (simp add: emit_def)

lemma emit_Nil [simp]: "emit [] p = p"
  by (simp add: emit_def)

lemma emit_camera_update: "emit a (p\<lparr>camera := c\<rparr>) = (emit a p)\<lparr>camera := c\<rparr>"
  by (simp add: emit_def)

lemma allocate_loop_eq:
  "allocate_loop V i cfgs p = (allocate_ok V i cfgs, emit (allocate_events V i cfgs) p)"
  by (induction cfgs arbitrary: i p) (simp_all add: Let_def emit_emit)

lemma request_loop_eq:
  "request_loop V cam st i bufs s p =
     (request_ok V i bufs, s\<lparr>requests := requests s @ created_requests V st i bufs\<rparr>,
      emit (request_events V cam st i bufs) p)"
proof (induction bufs arbitrary: i s p)
  case Nil
  show ?case by simp
next
  case (Cons buffer bufs)
  show ?case
  proof (cases "createRequest V i")
    case None
    then show ?thesis by (simp add: emit_emit)
  next
    case (Some request)
    then show ?thesis
      by (simp add: Cons.IH Let_def emit_emit prepared_def)
  qed
qed

lemma cm_get_first:
  "cameras V \<noteq> [] \<Longrightarrow> cm_get (cameras V) (cam_id (cameras V ! 0)) = Some (first_camera V)"
  by (cases "cameras V") (simp_all add: cm_get_def first_camera_def)

lemma start_eq:
  "start V s p = (case start_fault V of Some f \<Rightarrow> Inl f | None \<Rightarrow> Inr (start_result V s p))"
proof (cases "cameras V = []")
  case True
  then show ?thesis
    by (simp add: start_def start_result_def start_fault_def listing_events_def emit_emit)
next
  case False
  note cams = this
  show ?thesis
  proof (cases "generateConfiguration V (first_camera V) [Viewfinder]")
    case None
    then show ?thesis
      using cams by (simp add: start_def start_fault_def cm_get_first Let_def)
  next
    case (Some cfgs)
    show ?thesis
    proof (cases cfgs)
      case Nil
      then show ?thesis
        using cams Some by (simp add: start_def start_fault_def cm_get_first Let_def)
    next
      case (Cons c cs)
      have gen: "generateConfiguration V (first_camera V) [Viewfinder] = Some (c # cs)"
        using Some Cons by simp
      have nofault: "start_fault V = None"
        using cams gen by (simp add: start_fault_def)
      have dc: "default_config V = c # cs"
        using gen by (simp add: default_config_def)
      have cfg1: "c\<lparr>size_width := 2592, size_height := 1944\<rparr> # cs = requested_config V"
        by (simp add: requested_config_def dc)
      have cfg2: "map (validate V) (requested_config V) = validated_config V"
        by (simp add: validated_config_def)
      have st: "validate V (c\<lparr>size_width := 2592, size_height := 1944\<rparr>)
                  = hd (validated_config V)"
        by (simp add: validated_config_def requested_config_def dc)
      have st2: "cfg_stream (hd (validated_config V)) = capture_stream V"
        by (simp add: capture_stream_def)
      have lst: "map (\<lambda>c. Cout ('' - '' @ cameraName c @ endl)) (cameras V) = listing_events V"
        by (simp add: listing_events_def)
      have folded: "start V s p =
         (let s1 = s\<lparr>cm := Some CameraManager\<rparr>;
              p2 = emit (listing_events V) (emit [CM_start] p);
              cam = first_camera V;
              p5 = emit [Cout (''Default viewfinder configuration is: '' @
                                       cfg_toString V c @ endl)]
                    (emit [Cam_generateConfiguration cam [Viewfinder]]
                      (emit [Cam_acquire cam] (p2\<lparr>camera := Some cam\<rparr>)));
              p6 = emit [Cam_configure cam (requested_config V)] p5
          in if configure_ret V 0 \<noteq> 0 then
               Inr (EXIT_FAILURE, s1, emit [Cout msg_configuration_failed] p6)
             else
               let p7 = emit [Cfg_validate,
                              Cout (''Validated viewfinder configuration is: '' @
                                     cfg_toString V (hd (validated_config V)) @ endl),
                              Cam_configure cam (validated_config V)] p6;
                   p8 = emit ([Cout (''controls:'' @ endl)] @
                                          map control_line (cam_controls V) @
                                          [Cout (''properies:'' @ endl)] @
                                          map property_line (cam_properties V)) p7;
                   s2 = s1\<lparr>allocator := Some (FrameBufferAllocator cam)\<rparr>;
                   p9 = emit [New_allocator cam] p8
               in case allocate_loop V 0 (validated_config V) p9 of
                    (False, p10) \<Rightarrow> Inr (EXIT_FAILURE, s2, p10)
                  | (True, p10) \<Rightarrow>
                      (case request_loop V cam (capture_stream V) 0
                              (alloc_buffers V (capture_stream V))
                              (s2\<lparr>stream := Some (capture_stream V)\<rparr>) p10 of
                         (False, s4, p11) \<Rightarrow> Inr (EXIT_FAILURE, s4, p11)
                       | (True, s4, p11) \<Rightarrow>
                           Inr (EXIT_SUCCESS, s4,
                                emit [Connect_requestCompleted cam, Cam_start cam] p11)))"
        unfolding start_def Let_def
        by (simp only: cams if_False cm_get_first[OF cams] option.case list.case gen
            cfg1 cfg2 st st2 lst)
      have hdc: "hd (default_config V) = c"
        by (simp add: dc)
      show ?thesis
      proof (cases "configure_ret V 0 \<noteq> 0")
        case True
        then show ?thesis
          unfolding folded nofault
          by (simp add: cams start_result_def Let_def emit_emit emit_camera_update
              acquire_events_def hdc)
      next
        case False
        then show ?thesis
          unfolding folded nofault
          by (simp add: cams start_result_def Let_def emit_emit emit_camera_update
              acquire_events_def validate_events_def allocate_loop_eq request_loop_eq hdc)
      qed
    qed
  qed
qed

lemma start_Inr:
  "start V s p = Inr x \<Longrightarrow> start_fault V = None \<and> start_result V s p = x"
  by (auto simp: start_eq split: option.splits)

lemma start_returns: "start_fault V = None \<Longrightarrow> start V s p = Inr (start_result V s p)"
  by (simp add: start_eq)

subsection \<open>Closed forms of processRequest, the queue loop and finish\<close>

lemma process_buffer_eq:
  "process_buffer V bp p =
     (if mapped (snd bp) = [] then Inl OutOfRange
      else Inr (p\<lparr>clock_calls := clock_calls p + 2,
                  trace := trace p @ buffer_events V (clock_calls p) bp\<rparr>))"
  by (cases "mapped (snd bp)")
     (simp_all add: process_buffer_def buffer_events_def clock_def emit_def Let_def
        image_of_def image_path_def size_line_def)

lemma process_buffers_eq:
  "process_buffers V bps p =
     (if well_mapped bps
      then Inr (p\<lparr>clock_calls := clock_calls p + 2 * length bps,
                  trace := trace p @ buffers_events V (clock_calls p) bps\<rparr>)
      else Inl OutOfRange)"
  by (induction bps arbitrary: p) (simp_all add: well_mapped_def process_buffer_eq)

lemma processRequest_eq:
  "processRequest V r p =
     (if \<not> well_mapped (buffers r) then Inl OutOfRange
      else case camera p of
             None \<Rightarrow> Inl NullDereference
           | Some cam \<Rightarrow>
               Inr (p\<lparr>clock_calls := clock_calls p + 2 * length (buffers r),
                      trace := trace p @ buffers_events V (clock_calls p) (buffers r) @
                        [Req_reuse (req_id r) ReuseBuffers, Cam_queueRequest cam (req_id r)]\<rparr>))"
  by (simp add: processRequest_def process_buffers_eq emit_def Let_def split: option.splits)

lemma queue_requests_eq:
  "queue_requests rs p =
     (if rs = [] then Inr p
      else case camera p of
             None \<Rightarrow> Inl NullDereference
           | Some cam \<Rightarrow> Inr (emit (map (\<lambda>r. Cam_queueRequest cam (req_id r)) rs) p))"
  by (induction rs arbitrary: p) (auto simp: emit_emit split: option.splits)

lemma finish_eq:
  "finish s p =
     (case camera p of
        None \<Rightarrow> Inl NullDereference
      | Some cam \<Rightarrow>
          (case allocator s of
             None \<Rightarrow> Inl NullDereference
           | Some alloc \<Rightarrow>
               (case cm s of
                  None \<Rightarrow> Inl NullDereference
                | Some m \<Rightarrow>
                    Inr (EXIT_SUCCESS, s,
                         p\<lparr>camera := None,
                           trace := trace p @
                             [Cam_stop cam, Alloc_free alloc (stream s), Delete_allocator alloc,
                              Cam_release cam, Cam_reset, CM_stop]\<rparr>))))"
  by (simp add: finish_def emit_def Let_def split: option.splits)

subsection \<open>go\<close>

lemma callback_mapped_simp [simp]:
  "callback_mapped (ProcessRequest r) = well_mapped (buffers r)"
  by (simp add: callback_mapped_def)

lemma step_mapped_simps [simp]:
  "step_mapped (Completion r) = well_mapped (buffers r)" "step_mapped Dispatch"
  by (simp_all add: step_mapped_def)

lemma go_eq:
  "go V s p =
     (case queue_requests (requests s) p of
        Inl f \<Rightarrow> Inl f
      | Inr p1 \<Rightarrow>
          (case exec_steps V (loop_schedule V)
                  (emit [Loop_exec] (p1\<lparr>loop := timeout (loop p1) TIMEOUT_SEC\<rparr>)) of
             Inl f \<Rightarrow> Inl f
           | Inr p3 \<Rightarrow> Inr (EXIT_SUCCESS, s, emit [Cout (exit_line (exec_ret V))] p3)))"
  by (simp add: go_def exec_def exit_line_def Let_def split: sum.splits)

lemma buffer_events_exec_ret [simp]:
  "buffer_events (V\<lparr>exec_ret := x\<rparr>) n bp = buffer_events V n bp"
  by (simp add: buffer_events_def size_line_def image_path_def image_of_def)

lemma buffers_events_exec_ret [simp]:
  "buffers_events (V\<lparr>exec_ret := x\<rparr>) n bps = buffers_events V n bps"
  by (induction bps arbitrary: n) simp_all

lemma processRequest_exec_ret [simp]:
  "processRequest (V\<lparr>exec_ret := x\<rparr>) r p = processRequest V r p"
  by (simp add: processRequest_eq split: option.splits)

lemma exec_steps_exec_ret [simp]:
  "exec_steps (V\<lparr>exec_ret := x\<rparr>) steps p = exec_steps V steps p"
proof (induction steps arbitrary: p)
  case Nil
  show ?case by simp
next
  case (Cons st steps)
  show ?case
  proof (cases st)
    case (Completion r)
    then show ?thesis by (simp add: Cons.IH)
  next
    case Dispatch
    then show ?thesis
      by (simp add: Cons.IH split: list.splits callback.splits sum.splits)
  qed
qed

lemma exec_steps_returns:
  "camera p = Some cam \<Longrightarrow> list_all callback_mapped (pending (loop p)) \<Longrightarrow>
   list_all step_mapped steps \<Longrightarrow>
   \<exists>p'. exec_steps V steps p = Inr p' \<and> camera p' = Some cam"
proof (induction steps arbitrary: p)
  case Nil
  then show ?case by simp
next
  case (Cons st steps)
  show ?case
  proof (cases st)
    case (Completion r)
    let ?p1 = "requestComplete r (emit [Sig_requestCompleted (req_id r) (status r)] p)"
    have "camera ?p1 = Some cam"
      using Cons.prems(1) by (simp add: requestComplete_def)
    moreover have "list_all callback_mapped (pending (loop ?p1))"
      using Cons.prems(2,3) Completion
      by (simp add: requestComplete_def callLater_def)
    moreover have "list_all step_mapped steps"
      using Cons.prems(3) by simp
    ultimately show ?thesis
      using Cons.IH [of ?p1] Completion by simp
  next
    case Dispatch
    show ?thesis
    proof (cases "pending (loop p)")
      case Nil
      then show ?thesis
        using Cons.IH [of p] Cons.prems Dispatch by simp
    next
      case (Cons cb cbs)
      obtain r where cb: "cb = ProcessRequest r" by (cases cb)
      let ?p0 = "p\<lparr>loop := (loop p)\<lparr>pending := cbs\<rparr>\<rparr>"
      have wm: "well_mapped (buffers r)" and rest: "list_all callback_mapped cbs"
        using \<open>list_all callback_mapped (pending (loop p))\<close> Cons cb
        by simp_all
      obtain p1 where p1: "processRequest V r ?p0 = Inr p1" and cam1: "camera p1 = Some cam"
        and loop1: "loop p1 = loop ?p0"
        using wm \<open>camera p = Some cam\<close> by (simp add: processRequest_eq)
      have "list_all callback_mapped (pending (loop p1))"
        using rest loop1 by simp
      then obtain p' where "exec_steps V steps p1 = Inr p'" "camera p' = Some cam"
        using Cons.IH [of p1] cam1 Cons.prems(3) by auto
      then show ?thesis
        using Dispatch Cons cb p1 by simp
    qed
  qed
qed

lemma go_returns:
  assumes "camera p = Some cam" "list_all callback_mapped (pending (loop p))"
    "list_all step_mapped (loop_schedule V)"
  shows "\<exists>p'. go V s p = Inr (EXIT_SUCCESS, s, p')"
proof -
  obtain p1 where q: "queue_requests (requests s) p = Inr p1"
    and c1: "camera p1 = Some cam" and l1: "pending (loop p1) = pending (loop p)"
    using assms(1) by (cases "requests s = []") (simp_all add: queue_requests_eq)
  let ?p2 = "emit [Loop_exec] (p1\<lparr>loop := timeout (loop p1) TIMEOUT_SEC\<rparr>)"
  have "camera ?p2 = Some cam" "list_all callback_mapped (pending (loop ?p2))"
    using c1 l1 assms(2) by (simp_all add: timeout_def)
  then obtain p3 where "exec_steps V (loop_schedule V) ?p2 = Inr p3"
    using exec_steps_returns [of ?p2 cam "loop_schedule V" V] assms(3) by blast
  then show ?thesis
    using q by (simp add: go_eq)
qed

text \<open>
  C8. \<open>go\<close> returns \<open>EXIT_SUCCESS\<close> whatever exit status the event loop returns: the
  status only appears in the line printed last. Run with two different exit statuses from
  the same state, \<open>go\<close> returns the same code and leaves the same object and the same
  process state but for that line, so the caller cannot tell how the loop ended. \<open>go\<close> does
  return when the camera handle is set and every request the loop processes has a mapped
  plane in each buffer.
\<close>

theorem go_always_succeeds:
  "(camera p = Some cam \<and> list_all callback_mapped (pending (loop p)) \<and>
    list_all step_mapped (loop_schedule V) \<longrightarrow>
      (\<exists>p'. go (V\<lparr>exec_ret := x\<rparr>) s p = Inr (EXIT_SUCCESS, s, p'))) \<and>
   (go (V\<lparr>exec_ret := x\<rparr>) s p = Inr (rc, s', p') \<longrightarrow>
      rc = EXIT_SUCCESS \<and> s' = s \<and>
      (\<exists>q es. go (V\<lparr>exec_ret := y\<rparr>) s p = Inr (EXIT_SUCCESS, s, q) \<and>
         trace p' = es @ [Cout (exit_line x)] \<and> trace q = es @ [Cout (exit_line y)] \<and>
         camera q = camera p' \<and> loop q = loop p' \<and> clock_calls q = clock_calls p'))"
proof (intro conjI impI)
  assume "camera p = Some cam \<and> list_all callback_mapped (pending (loop p)) \<and>
    list_all step_mapped (loop_schedule V)"
  then show "\<exists>p'. go (V\<lparr>exec_ret := x\<rparr>) s p = Inr (EXIT_SUCCESS, s, p')"
    using go_returns [of p cam "V\<lparr>exec_ret := x\<rparr>" s] by simp
next
  assume g: "go (V\<lparr>exec_ret := x\<rparr>) s p = Inr (rc, s', p')"
  then show "rc = EXIT_SUCCESS" and "s' = s"
    by (auto simp: go_eq split: sum.splits)
  show "\<exists>q es. go (V\<lparr>exec_ret := y\<rparr>) s p = Inr (EXIT_SUCCESS, s, q) \<and>
         trace p' = es @ [Cout (exit_line x)] \<and> trace q = es @ [Cout (exit_line y)] \<and>
         camera q = camera p' \<and> loop q = loop p' \<and> clock_calls q = clock_calls p'"
    using g by (auto simp: go_eq split: sum.splits)
qed

subsection \<open>finish\<close>

lemma example_fault: "start_fault example_vendor = None"
  by (simp add: start_fault_def example_vendor_def)

lemma example_start_fst:
  "fst (start_result example_vendor s p) = EXIT_SUCCESS"
  by (simp add: start_result_def example_vendor_def capture_stream_def validated_config_def
      requested_config_def default_config_def)

text \<open>
  C7. \<open>finish\<close> tears down in a fixed order: it stops the camera, frees the allocator's
  buffers for the stream, deletes the allocator, releases the camera, resets the shared
  camera handle and stops the camera manager, and nothing else; it returns \<open>EXIT_SUCCESS\<close>
  whenever it returns, and it returns whenever the camera handle, the allocator and the
  manager are set. After a successful \<open>start\<close> they are set, and they are the objects
  \<open>start\<close> acquired: the camera it acquired, the allocator it created for that camera, the
  stream it allocated buffers for and the manager it started.
\<close>

theorem finish_releases_in_order:
  "(camera p = Some cam \<and> allocator s = Some alloc \<and> cm s = Some m \<longrightarrow>
      finish s p =
        Inr (EXIT_SUCCESS, s,
             p\<lparr>camera := None,
               trace := trace p @
                 [Cam_stop cam, Alloc_free alloc (stream s), Delete_allocator alloc,
                  Cam_release cam, Cam_reset, CM_stop]\<rparr>)) \<and>
   (finish s p = Inr (rc, s', p') \<longrightarrow> rc = EXIT_SUCCESS) \<and>
   (start V s0 p0 = Inr (EXIT_SUCCESS, s, p) \<longrightarrow>
      camera p = Some (first_camera V) \<and>
      allocator s = Some (FrameBufferAllocator (first_camera V)) \<and>
      cm s = Some CameraManager \<and>
      stream s = Some (capture_stream V) \<and>
      CM_start \<in> set (drop (length (trace p0)) (trace p)) \<and>
      Cam_acquire (first_camera V) \<in> set (drop (length (trace p0)) (trace p)) \<and>
      New_allocator (first_camera V) \<in> set (drop (length (trace p0)) (trace p)) \<and>
      Alloc_allocate (capture_stream V) \<in> set (drop (length (trace p0)) (trace p)))"
proof (intro conjI impI)
  assume "camera p = Some cam \<and> allocator s = Some alloc \<and> cm s = Some m"
  then show "finish s p =
        Inr (EXIT_SUCCESS, s,
             p\<lparr>camera := None,
               trace := trace p @
                 [Cam_stop cam, Alloc_free alloc (stream s), Delete_allocator alloc,
                  Cam_release cam, Cam_reset, CM_stop]\<rparr>)"
    by (simp add: finish_eq)
next
  assume "finish s p = Inr (rc, s', p')"
  then show "rc = EXIT_SUCCESS"
    by (auto simp: finish_eq split: option.splits)
next
  assume st: "start V s0 p0 = Inr (EXIT_SUCCESS, s, p)"
  then have r: "start_result V s0 p0 = (EXIT_SUCCESS, s, p)"
    using start_Inr by blast
  have ok: "cameras V \<noteq> []" "configure_ret V 0 = 0" "allocate_ok V 0 (validated_config V)"
    "request_ok V 0 (alloc_buffers V (capture_stream V))"
    using r EXIT_codes_distinct by (auto simp: start_result_def split: if_splits)
  have al: "allocate_events V 0 (validated_config V) =
      Alloc_allocate (capture_stream V) # tl (allocate_events V 0 (validated_config V))"
    by (simp add: validated_config_def requested_config_def default_config_def capture_stream_def)
  have s: "s = s0\<lparr>cm := Some CameraManager,
             allocator := Some (FrameBufferAllocator (first_camera V)),
             stream := Some (capture_stream V),
             requests := requests s0 @
               created_requests V (capture_stream V) 0 (alloc_buffers V (capture_stream V))\<rparr>"
    and p: "p = (emit (acquire_events V @ validate_events V @
                allocate_events V 0 (validated_config V) @
                request_events V (first_camera V) (capture_stream V) 0
                  (alloc_buffers V (capture_stream V)) @
                [Connect_requestCompleted (first_camera V), Cam_start (first_camera V)]) p0)
           \<lparr>camera := Some (first_camera V)\<rparr>"
    using r ok by (simp_all add: start_result_def)
  show "camera p = Some (first_camera V)" by (simp add: p)
  show "allocator s = Some (FrameBufferAllocator (first_camera V))" by (subst s) simp
  show "cm s = Some CameraManager" by (subst s) simp
  show "stream s = Some (capture_stream V)" by (subst s) simp
  show "CM_start \<in> set (drop (length (trace p0)) (trace p))"
    by (simp add: p acquire_events_def)
  show "Cam_acquire (first_camera V) \<in> set (drop (length (trace p0)) (trace p))"
    by (simp add: p acquire_events_def)
  show "New_allocator (first_camera V) \<in> set (drop (length (trace p0)) (trace p))"
    by (simp add: p validate_events_def)
  show "Alloc_allocate (capture_stream V) \<in> set (drop (length (trace p0)) (trace p))"
    by (subst p, subst al) simp
qed

lemma example_names:
  "first_camera example_vendor = example_camera" "capture_stream example_vendor = 1"
  by (simp_all add: first_camera_def capture_stream_def validated_config_def
      requested_config_def default_config_def example_vendor_def example_cfg_def)

theorem finish_releases_in_order_witness:
  "(case start example_vendor new_simple_cam initial_proc of
      Inl f \<Rightarrow> False
    | Inr (rc, s, p) \<Rightarrow>
        rc = EXIT_SUCCESS \<and> camera p = Some example_camera \<and>
        allocator s = Some (FrameBufferAllocator example_camera) \<and>
        (case finish s p of
           Inl f \<Rightarrow> False
         | Inr (rc', s', p') \<Rightarrow>
             rc' = EXIT_SUCCESS \<and> camera p' = None \<and>
             drop (length (trace p)) (trace p') =
               [Cam_stop example_camera,
                Alloc_free (FrameBufferAllocator example_camera) (Some 1),
                Delete_allocator (FrameBufferAllocator example_camera),
                Cam_release example_camera, Cam_reset, CM_stop]))"
proof -
  obtain s p where st: "start example_vendor new_simple_cam initial_proc = Inr (EXIT_SUCCESS, s, p)"
    by (metis prod.collapse start_returns example_fault example_start_fst)
  note T = finish_releases_in_order [where p = p and s = s and V = example_vendor
      and ?s0.0 = new_simple_cam and ?p0.0 = initial_proc and cam = example_camera
      and alloc = "FrameBufferAllocator example_camera" and m = CameraManager]
  from T st have h: "camera p = Some example_camera"
      "allocator s = Some (FrameBufferAllocator example_camera)"
      "cm s = Some CameraManager" "stream s = Some 1"
    by (simp_all add: example_names)
  with T have "finish s p =
        Inr (EXIT_SUCCESS, s,
             p\<lparr>camera := None,
               trace := trace p @
                 [Cam_stop example_camera,
                  Alloc_free (FrameBufferAllocator example_camera) (stream s),
                  Delete_allocator (FrameBufferAllocator example_camera),
                  Cam_release example_camera, Cam_reset, CM_stop]\<rparr>)"
    by blast
  then show ?thesis
    using st h by simp
qed

lemma imwrites_append [simp]: "imwrites (xs @ ys) = imwrites xs @ imwrites ys"
  by (induction xs rule: imwrites.induct) simp_all

lemma imwrites_print_planes [simp]: "imwrites (print_planes k sz pls) = []"
  by (induction pls arbitrary: k) (simp_all add: Let_def)

lemma imwrites_buffer_events [simp]:
  "imwrites (buffer_events V n bp) = [(image_path V (Suc n), image_of V bp)]"
  by (simp add: buffer_events_def)

lemma imwrites_buffers_events:
  "imwrites (buffers_events V n bps) =
     map (\<lambda>k. (image_path V (n + 2 * k + 1), image_of V (bps ! k))) [0..<length bps]"
proof (induction bps arbitrary: n)
  case Nil
  show ?case by simp
next
  case (Cons bp bps)
  have "map (\<lambda>k. (image_path V (n + 2 * k + 1), image_of V ((bp # bps) ! k))) [0..<length (bp # bps)]
      = (image_path V (Suc n), image_of V bp) #
        map (\<lambda>k. (image_path V (n + 2 + 2 * k + 1), image_of V (bps ! k))) [0..<length bps]"
    by (simp add: upt_conv_Cons map_Suc_upt [symmetric] del: upt_Suc)
  then show ?case
    by (simp add: Cons.IH)
qed

lemma effects_print_planes [simp]: "list_all request_effect (print_planes k sz pls)"
  by (induction pls arbitrary: k) (simp_all add: Let_def request_effect_def)

lemma effects_buffers_events [simp]: "list_all request_effect (buffers_events V n bps)"
  by (induction bps arbitrary: n) (simp_all add: buffer_events_def request_effect_def)

subsection \<open>Images written by processRequest\<close>

lemma map_nth_fun: "map (\<lambda>k. f (xs ! k)) [0..<length xs] = map f xs"
  by (rule nth_equalityI) simp_all

lemma image_of_fun:
  "image_of V = (\<lambda>bp. \<lparr>mat_rows = size_height (stream_config V (fst bp)),
                      mat_cols = size_width (stream_config V (fst bp)),
                      mat_kind = CV_8UC1, mat_stride = AUTO_STEP,
                      mat_data = hd (mapped (snd bp))\<rparr>)"
  by (rule ext) (simp add: image_of_def)

text \<open>
  C4. For a request whose buffers each map at least one plane, and with the camera handle
  set, \<open>processRequest\<close> writes exactly one image for each buffer of the request, in the
  order of the buffers; the path of every image is \<open>images/img\<close>, the rendering of a clock
  reading, \<open>.png\<close>; and the call has no effect besides printing, mapping the buffers,
  these writes, \<open>reuse\<close> and \<open>queueRequest\<close>, so nothing else is written to the file system.
\<close>

theorem processRequest_writes_png:
  assumes "well_mapped (buffers r)" and "camera p = Some cam"
  shows "\<exists>p'. processRequest V r p = Inr p' \<and>
           length (imwrites (drop (length (trace p)) (trace p'))) = length (buffers r) \<and>
           map fst (imwrites (drop (length (trace p)) (trace p'))) =
             map (\<lambda>k. ''images/img'' @
                       to_string_seconds V (clock_ticks V (clock_calls p + 2 * k + 1)) @ ''.png'')
                 [0..<length (buffers r)] \<and>
           list_all request_effect (drop (length (trace p)) (trace p'))"
  using assms
  by (simp add: processRequest_eq imwrites_buffers_events image_path_def comp_def
      request_effect_def)

theorem processRequest_writes_png_witness:
  "(case processRequest example_vendor example_request (initial_proc\<lparr>camera := Some example_camera\<rparr>) of
      Inl f \<Rightarrow> False
    | Inr p' \<Rightarrow> map fst (imwrites (trace p')) = [''images/img0.000000.png''])"
proof -
  have "well_mapped (buffers example_request)"
    by (simp add: well_mapped_def example_request_def example_buffer_def)
  moreover have "camera (initial_proc\<lparr>camera := Some example_camera\<rparr>) = Some example_camera"
    by simp
  ultimately obtain p' where
    "processRequest example_vendor example_request (initial_proc\<lparr>camera := Some example_camera\<rparr>) = Inr p'"
    "map fst (imwrites (drop (length (trace (initial_proc\<lparr>camera := Some example_camera\<rparr>))) (trace p'))) =
       map (\<lambda>k. ''images/img'' @
                       to_string_seconds example_vendor (clock_ticks example_vendor
                         (clock_calls (initial_proc\<lparr>camera := Some example_camera\<rparr>) + 2 * k + 1)) @ ''.png'')
                 [0..<length (buffers example_request)]"
    using processRequest_writes_png [of example_request "initial_proc\<lparr>camera := Some example_camera\<rparr>"
        example_camera example_vendor] by blast
  then show ?thesis
    by (simp add: initial_proc_def example_request_def example_vendor_def)
qed

text \<open>
  C9. \<open>processRequest\<close> reads \<open>mem[0]\<close> of every buffer without a test. When every buffer
  of the request maps at least one plane (and the camera handle is set) the call returns, and
  the image written for a buffer has the configured height as its rows, the configured width
  as its columns, type \<open>CV_8UC1\<close>, the default step, and the first mapped plane as its
  data. When some buffer maps no plane the access is out of range. The configured stride and
  pixel format do not enter the image: changing them in any way leaves the images written, and
  their paths, as they were.
\<close>

theorem processRequest_first_plane_only:
  "(well_mapped (buffers r) \<and> camera p = Some cam \<longrightarrow>
      (\<exists>p'. processRequest V r p = Inr p' \<and>
         map snd (imwrites (drop (length (trace p)) (trace p'))) =
           map (\<lambda>bp. \<lparr>mat_rows = size_height (stream_config V (fst bp)),
                      mat_cols = size_width (stream_config V (fst bp)),
                      mat_kind = CV_8UC1, mat_stride = AUTO_STEP,
                      mat_data = hd (mapped (snd bp))\<rparr>) (buffers r))) \<and>
   (\<not> well_mapped (buffers r) \<longrightarrow> processRequest V r p = Inl OutOfRange) \<and>
   (processRequest V r p = Inr p' \<and>
    processRequest
      (V\<lparr>stream_config := \<lambda>st. (stream_config V st)\<lparr>stride := sf st, pixelFormat := pf st\<rparr>\<rparr>)
      r p = Inr q \<longrightarrow>
      imwrites (trace q) = imwrites (trace p'))"
proof (intro conjI impI)
  assume "well_mapped (buffers r) \<and> camera p = Some cam"
  then show "\<exists>p'. processRequest V r p = Inr p' \<and>
         map snd (imwrites (drop (length (trace p)) (trace p'))) =
           map (\<lambda>bp. \<lparr>mat_rows = size_height (stream_config V (fst bp)),
                      mat_cols = size_width (stream_config V (fst bp)),
                      mat_kind = CV_8UC1, mat_stride = AUTO_STEP,
                      mat_data = hd (mapped (snd bp))\<rparr>) (buffers r)"
    by (simp add: processRequest_eq imwrites_buffers_events comp_def
        map_nth_fun [of "image_of V"] image_of_fun [symmetric])
next
  assume "\<not> well_mapped (buffers r)"
  then show "processRequest V r p = Inl OutOfRange"
    by (simp add: processRequest_eq)
next
  let ?V = "V\<lparr>stream_config := \<lambda>st. (stream_config V st)\<lparr>stride := sf st, pixelFormat := pf st\<rparr>\<rparr>"
  assume a: "processRequest V r p = Inr p' \<and> processRequest ?V r p = Inr q"
  have "imwrites (buffers_events ?V n bps) = imwrites (buffers_events V n bps)" for n bps
    by (simp add: imwrites_buffers_events image_path_def image_of_def)
  with a show "imwrites (trace q) = imwrites (trace p')"
    by (auto simp: processRequest_eq split: if_splits option.splits)
qed

subsection \<open>The completion slot\<close>

text \<open>
  C2. \<open>requestComplete\<close> tests the status of the request and nothing else: a cancelled
  request leaves the whole process state as it was, and any other request changes one thing
  only, the queue of the event loop, which gets the call \<open>processRequest(request)\<close> at its
  end. In both cases nothing is printed, no vendor call is made and \<open>clock()\<close> is not
  called: the trace and the other components are unchanged.
\<close>

theorem requestComplete_only_schedules:
  "(status request = RequestCancelled \<longrightarrow> requestComplete request p = p) \<and>
   (status request \<noteq> RequestCancelled \<longrightarrow>
      requestComplete request p =
        p\<lparr>loop := (loop p)\<lparr>pending := pending (loop p) @ [ProcessRequest request]\<rparr>\<rparr>) \<and>
   trace (requestComplete request p) = trace p \<and>
   camera (requestComplete request p) = camera p \<and>
   clock_calls (requestComplete request p) = clock_calls p"
  by (simp add: requestComplete_def callLater_def)

theorem requestComplete_only_schedules_witness:
  "requestComplete \<lparr>req_id = 7, status = RequestCancelled, buffers = [], controls = []\<rparr> initial_proc
     = initial_proc \<and>
   requestComplete \<lparr>req_id = 8, status = RequestComplete, buffers = [], controls = []\<rparr> initial_proc
     = initial_proc\<lparr>loop := \<lparr>pending = [ProcessRequest
          \<lparr>req_id = 8, status = RequestComplete, buffers = [], controls = []\<rparr>], timeout_sec = None\<rparr>\<rparr>"
  using requestComplete_only_schedules
          [of "\<lparr>req_id = 7, status = RequestCancelled, buffers = [], controls = []\<rparr>" initial_proc]
        requestComplete_only_schedules
          [of "\<lparr>req_id = 8, status = RequestComplete, buffers = [], controls = []\<rparr>" initial_proc]
  by (simp add: initial_proc_def)

subsection \<open>The metadata line\<close>

lemma cout_text_append [simp]: "cout_text (xs @ ys) = cout_text xs @ cout_text ys"
  by (induction xs rule: cout_text.induct) simp_all

lemma digit_char_not_slash: "d < 10 \<Longrightarrow> digit_char d \<noteq> CHR ''/''"
proof -
  assume "d < 10"
  then have "d \<in> {0, 1, 2, 3, 4, 5, 6, 7, 8, 9}" by auto
  then show ?thesis by (auto simp: digit_char_def)
qed

lemma dec_no_slash: "CHR ''/'' \<notin> set (dec n)"
proof (induction n rule: dec.induct)
  case (1 n)
  show ?case
  proof (cases "n < 10")
    case True
    then show ?thesis
      using digit_char_not_slash [of n] by (subst dec.simps) auto
  next
    case False
    then show ?thesis
      using 1 digit_char_not_slash [of "n mod 10"] by (subst dec.simps) auto
  qed
qed

lemma dec_not_Nil: "dec n \<noteq> []"
  by (subst dec.simps) simp

lemma count_join_slash:
  "\<forall>x \<in> set xs. CHR ''/'' \<notin> set x \<Longrightarrow>
   count_list (join_slash xs) (CHR ''/'') = length xs - 1"
proof (induction xs rule: join_slash.induct)
  case 1
  show ?case by simp
next
  case (2 x)
  then show ?case by (simp add: count_list_0_iff)
next
  case (3 x y ys)
  then have "count_list x (CHR ''/'') = 0"
    by (simp add: count_list_0_iff)
  with 3 show ?case by simp
qed

lemma unat_nplane_Suc:
  fixes nplane :: "32 word"
  assumes "unat nplane < sz" "sz < 2 ^ 32"
  shows "unat (nplane + 1) = Suc (unat nplane)"
proof -
  have "unat nplane + unat (1 :: 32 word) < 2 ^ LENGTH(32)"
    using assms by simp
  then show ?thesis
    using unat_add_lem [of nplane 1] by simp
qed

lemma print_planes_text:
  "unat nplane + length pls = sz \<Longrightarrow> sz < 2 ^ 32 \<Longrightarrow>
   cout_text (print_planes nplane sz pls) =
     join_slash (map (\<lambda>pl. dec (unat (bytesused pl))) pls)"
proof (induction pls arbitrary: nplane)
  case Nil
  show ?case by simp
next
  case (Cons pl pls)
  have lt: "unat nplane < sz" using Cons.prems(1) by simp
  have suc: "unat (nplane + 1) = Suc (unat nplane)"
    using unat_nplane_Suc [OF lt Cons.prems(2)] .
  show ?case
  proof (cases pls)
    case Nil
    then show ?thesis
      using Cons.prems(1) suc by (simp add: Let_def)
  next
    case (Cons pl2 pls2)
    have "unat (nplane + 1) + length pls = sz"
      using suc \<open>unat nplane + length (pl # pls) = sz\<close> by simp
    then have ih: "cout_text (print_planes (nplane + 1) sz pls) =
        join_slash (map (\<lambda>pl. dec (unat (bytesused pl))) pls)"
      using Cons.IH Cons.prems(2) by blast
    have "unat (nplane + 1) < sz"
      using suc \<open>unat nplane + length (pl # pls) = sz\<close> Cons by simp
    then show ?thesis
      using ih Cons by (simp add: Let_def)
  qed
qed

lemma length_setw6_fill0: "length (setw6_fill0 s) = max 6 (length s)"
  by (simp add: setw6_fill0_def)

lemma cout_text_buffer_events:
  assumes "planes_fit bp"
  shows "cout_text (buffer_events V n bp) = metadata_line V n bp"
proof -
  let ?md = "metadata (snd bp)"
  have "cout_text (print_planes 0 (length (planes ?md)) (planes ?md)) =
      join_slash (plane_texts ?md)"
    using print_planes_text [of 0 "planes ?md" "length (planes ?md)"] assms
    by (simp add: plane_texts_def planes_fit_def)
  then show ?thesis
    by (simp add: buffer_events_def metadata_line_def setw6_fill0_def)
qed

lemma cout_text_buffers_events:
  "list_all planes_fit bps \<Longrightarrow>
   cout_text (buffers_events V n bps) =
     concat (map (\<lambda>k. metadata_line V (n + 2 * k) (bps ! k)) [0..<length bps])"
proof (induction bps arbitrary: n)
  case Nil
  show ?case by simp
next
  case (Cons bp bps)
  have "map (\<lambda>k. metadata_line V (n + 2 * k) ((bp # bps) ! k)) [0..<length (bp # bps)]
      = metadata_line V n bp #
        map (\<lambda>k. metadata_line V (n + 2 + 2 * k) (bps ! k)) [0..<length bps]"
    by (simp add: upt_conv_Cons map_Suc_upt [symmetric] del: upt_Suc)
  then show ?case
    using Cons.prems by (simp add: Cons.IH cout_text_buffer_events)
qed

text \<open>
  C6. Take a request whose buffers each have fewer than \<open>2 ^ 32\<close> metadata planes (the
  range of the counter \<open>nplane\<close>) and map at least one plane, with the camera handle set.
  Then \<open>processRequest\<close> returns, and what it prints is, for each buffer of the request in
  order, \<open>seq:\<close>, the sequence number in a field of six characters filled with \<open>0\<close> on the
  left (the decimal number itself when that has more than six digits), \<open>bytesused:\<close>, the
  \<open>bytesused\<close> values of the planes in order with a \<open>/\<close> between consecutive values and
  none after the last, and the size part of the line; nothing else is printed. For a buffer
  with \<open>n \<ge> 1\<close> planes the plane part holds exactly \<open>n - 1\<close> separators.
\<close>

theorem metadata_line_format:
  assumes "list_all planes_fit (buffers r)" and "well_mapped (buffers r)"
    and "camera p = Some cam"
  shows "\<exists>p'. processRequest V r p = Inr p' \<and>
           cout_text (drop (length (trace p)) (trace p')) =
             concat (map (\<lambda>k. metadata_line V (clock_calls p + 2 * k) (buffers r ! k))
                       [0..<length (buffers r)]) \<and>
           (\<forall>bp \<in> set (buffers r).
              cout_text (print_planes 0 (length (planes (metadata (snd bp))))
                          (planes (metadata (snd bp)))) =
                join_slash (plane_texts (metadata (snd bp))) \<and>
              count_list (join_slash (plane_texts (metadata (snd bp)))) (CHR ''/'') =
                length (planes (metadata (snd bp))) - 1 \<and>
              length (replicate (6 - length (dec (unat (sequence (metadata (snd bp))))))
                        (CHR ''0'') @
                      dec (unat (sequence (metadata (snd bp))))) =
                max 6 (length (dec (unat (sequence (metadata (snd bp)))))))"
proof -
  have parts: "cout_text (print_planes 0 (length (planes (metadata (snd bp))))
                          (planes (metadata (snd bp)))) =
                join_slash (plane_texts (metadata (snd bp))) \<and>
              count_list (join_slash (plane_texts (metadata (snd bp)))) (CHR ''/'') =
                length (planes (metadata (snd bp))) - 1 \<and>
              length (replicate (6 - length (dec (unat (sequence (metadata (snd bp))))))
                        (CHR ''0'') @
                      dec (unat (sequence (metadata (snd bp))))) =
                max 6 (length (dec (unat (sequence (metadata (snd bp))))))"
    if "bp \<in> set (buffers r)" for bp
  proof -
    let ?md = "metadata (snd bp)"
    have fit: "length (planes ?md) < 2 ^ 32"
      using that assms(1) by (auto simp: list_all_iff planes_fit_def)
    have pp: "cout_text (print_planes 0 (length (planes ?md)) (planes ?md)) =
        join_slash (plane_texts ?md)"
      using print_planes_text [of 0 "planes ?md" "length (planes ?md)"] fit
      by (simp add: plane_texts_def)
    have cnt: "count_list (join_slash (plane_texts ?md)) (CHR ''/'') = length (planes ?md) - 1"
      using count_join_slash [of "plane_texts ?md"]
      by (simp add: plane_texts_def dec_no_slash)
    show ?thesis
      using pp cnt by simp
  qed
  have "cout_text (buffers_events V (clock_calls p) (buffers r) @
          [Req_reuse (req_id r) ReuseBuffers, Cam_queueRequest cam (req_id r)]) =
        concat (map (\<lambda>k. metadata_line V (clock_calls p + 2 * k) (buffers r ! k))
                       [0..<length (buffers r)])"
    using assms(1) by (simp add: cout_text_buffers_events)
  then have "processRequest V r p =
        Inr (p\<lparr>clock_calls := clock_calls p + 2 * length (buffers r),
               trace := trace p @ buffers_events V (clock_calls p) (buffers r) @
                 [Req_reuse (req_id r) ReuseBuffers, Cam_queueRequest cam (req_id r)]\<rparr>) \<and>
      cout_text (drop (length (trace p))
        (trace (p\<lparr>clock_calls := clock_calls p + 2 * length (buffers r),
               trace := trace p @ buffers_events V (clock_calls p) (buffers r) @
                 [Req_reuse (req_id r) ReuseBuffers, Cam_queueRequest cam (req_id r)]\<rparr>))) =
        concat (map (\<lambda>k. metadata_line V (clock_calls p + 2 * k) (buffers r ! k))
                       [0..<length (buffers r)])"
    using assms(2,3) by (simp add: processRequest_eq)
  with parts show ?thesis
    by blast
qed

subsection \<open>Failure of start\<close>

lemma run_append:
  "run step st (xs @ ys) =
     (case run step st xs of None \<Rightarrow> None | Some st1 \<Rightarrow> run step st1 ys)"
  by (induction xs arbitrary: st) (simp_all split: option.splits)


lemma run_inert:
  "\<forall>c \<in> set xs. step st c = Some st \<Longrightarrow> run step st xs = Some st"
  by (induction xs) simp_all












lemma checked_step_simps [simp]:
  "checked_step V Finished c = None"
  "checked_step V (Expect m) c = (if c = m then Some Finished else None)"
  "checked_step V (Checking nc na nr nb) (Cam_configure cam cfg) =
     (if nc = 0 \<and> configure_ret V 0 \<noteq> 0 then Some (Expect (Cout msg_configuration_failed))
      else Some (Checking (Suc nc) na nr nb))"
  "checked_step V (Checking nc na nr nb) (Alloc_allocate sp) =
     (if allocate_ret V na < 0 then Some (Expect (Cerr msg_cant_allocate))
      else Some (Checking nc (Suc na) nr nb))"
  "checked_step V (Checking nc na nr nb) (Cam_createRequest cam) =
     (if createRequest V nr = None then Some (Expect (Cerr msg_cant_create))
      else Some (Checking nc na (Suc nr) nb))"
  "checked_step V (Checking nc na nr nb) (Req_addBuffer a b d) =
     (if addBuffer_ret V nb < 0 then Some (Expect (Cerr msg_cant_set_buffer))
      else Some (Checking nc na nr (Suc nb)))"
  by (simp_all add: checked_step_def)



lemma checked_kind_simps [simp]:
  "checked_kind (Cam_configure cam cfg)" "checked_kind (Alloc_allocate sp)"
  "checked_kind (Cam_createRequest cam)" "checked_kind (Req_addBuffer a b d)"
  "\<not> checked_kind (Cout t)" "\<not> checked_kind (Cerr t)" "\<not> checked_kind CM_start"
  "\<not> checked_kind CM_stop" "\<not> checked_kind (Cam_acquire cam)"
  "\<not> checked_kind (Cam_generateConfiguration cam roles)" "\<not> checked_kind Cfg_validate"
  "\<not> checked_kind (New_allocator cam)" "\<not> checked_kind (Req_set_control a ctl v)"
  "\<not> checked_kind (Connect_requestCompleted cam)" "\<not> checked_kind (Cam_start cam)"
  by (simp_all add: checked_kind_def)

lemma failure_message_simps [simp]:
  "\<not> failure_message CM_start" "\<not> failure_message CM_stop"
  "\<not> failure_message (Connect_requestCompleted cam)" "\<not> failure_message (Cam_start cam)"
  "\<not> failure_message (Cam_acquire cam)" "\<not> failure_message (Cam_generateConfiguration cam roles)"
  "\<not> failure_message Cfg_validate" "\<not> failure_message (New_allocator cam)"
  "\<not> failure_message (Req_set_control a ctl v)"
  "\<not> failure_message (Cam_configure cam cfg)" "\<not> failure_message (Alloc_allocate sp)"
  "\<not> failure_message (Cam_createRequest cam)" "\<not> failure_message (Req_addBuffer a b d)"
  "failure_message (Cout msg_no_cameras)" "failure_message (Cout msg_configuration_failed)"
  by (simp_all add: failure_message_def)









subsection \<open>Concrete runs\<close>





lemma example_state_mapped:
  "list_all step_mapped (loop_schedule example_vendor)"
  "well_mapped (buffers example_request)"
  by (simp_all add: example_vendor_def example_request_def example_buffer_def well_mapped_def)

theorem go_always_succeeds_witness:
  "(\<exists>p'. go (example_vendor\<lparr>exec_ret := 0\<rparr>)
           (new_simple_cam\<lparr>requests := [example_request]\<rparr>)
           (initial_proc\<lparr>camera := Some example_camera\<rparr>) =
         Inr (EXIT_SUCCESS, new_simple_cam\<lparr>requests := [example_request]\<rparr>, p')) \<and>
   (\<exists>q. go (example_vendor\<lparr>exec_ret := 1\<rparr>)
           (new_simple_cam\<lparr>requests := [example_request]\<rparr>)
           (initial_proc\<lparr>camera := Some example_camera\<rparr>) =
         Inr (EXIT_SUCCESS, new_simple_cam\<lparr>requests := [example_request]\<rparr>, q))"
proof -
  let ?s = "new_simple_cam\<lparr>requests := [example_request]\<rparr>"
  let ?p = "initial_proc\<lparr>camera := Some example_camera\<rparr>"
  note T = go_always_succeeds [where V = example_vendor and s = ?s and p = ?p
      and cam = example_camera and x = 0 and y = 1]
  have pre: "camera ?p = Some example_camera \<and> list_all callback_mapped (pending (loop ?p)) \<and>
      list_all step_mapped (loop_schedule example_vendor)"
    by (simp add: initial_proc_def example_state_mapped)
  with T obtain p' where g: "go (example_vendor\<lparr>exec_ret := 0\<rparr>) ?s ?p = Inr (EXIT_SUCCESS, ?s, p')"
    by blast
  with T [where rc = EXIT_SUCCESS and s' = ?s and p' = p']
  obtain q where "go (example_vendor\<lparr>exec_ret := 1\<rparr>) ?s ?p = Inr (EXIT_SUCCESS, ?s, q)"
    by blast
  with g show ?thesis by blast
qed

theorem processRequest_first_plane_only_witness:
  "(case processRequest example_vendor example_request
           (initial_proc\<lparr>camera := Some example_camera\<rparr>) of
      Inl f \<Rightarrow> False
    | Inr p' \<Rightarrow>
        map snd (imwrites (trace p')) =
          [\<lparr>mat_rows = 480, mat_cols = 640, mat_kind = CV_8UC1, mat_stride = AUTO_STEP,
            mat_data = [1, 2, 3]\<rparr>]) \<and>
   processRequest example_vendor (example_request\<lparr>buffers := [(1, example_buffer\<lparr>mapped := []\<rparr>)]\<rparr>)
     (initial_proc\<lparr>camera := Some example_camera\<rparr>) = Inl OutOfRange \<and>
   (case processRequest
           (example_vendor\<lparr>stream_config :=
              \<lambda>st. (stream_config example_vendor st)\<lparr>stride := 0, pixelFormat := ''X''\<rparr>\<rparr>)
           example_request (initial_proc\<lparr>camera := Some example_camera\<rparr>) of
      Inl f \<Rightarrow> False
    | Inr q \<Rightarrow>
        map snd (imwrites (trace q)) =
          [\<lparr>mat_rows = 480, mat_cols = 640, mat_kind = CV_8UC1, mat_stride = AUTO_STEP,
            mat_data = [1, 2, 3]\<rparr>])"
proof -
  let ?p = "initial_proc\<lparr>camera := Some example_camera\<rparr>"
  let ?V = "example_vendor\<lparr>stream_config :=
              \<lambda>st. (stream_config example_vendor st)\<lparr>stride := 0, pixelFormat := ''X''\<rparr>\<rparr>"
  let ?bad = "example_request\<lparr>buffers := [(1, example_buffer\<lparr>mapped := []\<rparr>)]\<rparr>"
  have pre: "well_mapped (buffers example_request) \<and> camera ?p = Some example_camera"
    by (simp add: example_state_mapped)
  have tr: "trace ?p = []"
    by (simp add: initial_proc_def)
  obtain p' where p': "processRequest example_vendor example_request ?p = Inr p'"
    and im: "map snd (imwrites (drop (length (trace ?p)) (trace p'))) =
           map (\<lambda>bp. \<lparr>mat_rows = size_height (stream_config example_vendor (fst bp)),
                      mat_cols = size_width (stream_config example_vendor (fst bp)),
                      mat_kind = CV_8UC1, mat_stride = AUTO_STEP,
                      mat_data = hd (mapped (snd bp))\<rparr>) (buffers example_request)"
    using processRequest_first_plane_only [where V = example_vendor and r = example_request
        and p = ?p and cam = example_camera] pre by blast
  obtain q where q: "processRequest ?V example_request ?p = Inr q"
    using processRequest_first_plane_only [where V = ?V and r = example_request
        and p = ?p and cam = example_camera] pre by blast
  have same: "imwrites (trace q) = imwrites (trace p')"
    using processRequest_first_plane_only [where V = example_vendor and r = example_request
        and p = ?p and p' = p' and q = q and sf = "\<lambda>st. 0" and pf = "\<lambda>st. ''X''"] p' q
    by blast
  have bad: "processRequest example_vendor ?bad ?p = Inl OutOfRange"
    using processRequest_first_plane_only [where V = example_vendor and r = ?bad and p = ?p]
    by (simp add: well_mapped_def)
  have val: "map snd (imwrites (trace p')) =
      [\<lparr>mat_rows = 480, mat_cols = 640, mat_kind = CV_8UC1, mat_stride = AUTO_STEP,
        mat_data = [1, 2, 3]\<rparr>]"
    using im tr
    by (simp add: example_request_def example_buffer_def example_vendor_def example_cfg_def)
  show ?thesis
    using p' q same bad val by simp
qed

lemma dec_small: "n < 10 \<Longrightarrow> dec n = [digit_char n]"
  by (subst dec.simps) simp

lemma dec_examples: "dec 12 = ''12''" "dec 7 = ''7''" "dec 9 = ''9''"
    "dec 640 = ''640''" "dec 480 = ''480''"
  by (simp_all add: dec.simps digit_char_def)

lemma replicate_4: "replicate 4 x = [x, x, x, x]"
  by (simp add: eval_nat_numeral)

theorem metadata_line_format_witness:
  "(case processRequest example_vendor example_request
           (initial_proc\<lparr>camera := Some example_camera\<rparr>) of
      Inl f \<Rightarrow> False
    | Inr p' \<Rightarrow>
        cout_text (trace p') =
          '' seq: 000012 bytesused: 7/9 size 640x480 stride 640 format R8 sec 0'' @ endl) \<and>
   join_slash (plane_texts (metadata example_buffer)) = ''7/9'' \<and>
   count_list (join_slash (plane_texts (metadata example_buffer))) (CHR ''/'') = 1"
proof -
  let ?p = "initial_proc\<lparr>camera := Some example_camera\<rparr>"
  have fit: "list_all planes_fit (buffers example_request)"
    by (simp add: planes_fit_def example_request_def example_buffer_def)
  have cam: "camera ?p = Some example_camera"
    by simp
  note pre = fit example_state_mapped(2) cam
  note T = metadata_line_format [OF pre, of example_vendor]
  obtain p' where p': "processRequest example_vendor example_request ?p = Inr p'"
    and line: "cout_text (drop (length (trace ?p)) (trace p')) =
        concat (map (\<lambda>k. metadata_line example_vendor (clock_calls ?p + 2 * k)
                          (buffers example_request ! k))
                  [0..<length (buffers example_request)])"
    and cnt: "\<forall>bp \<in> set (buffers example_request).
        count_list (join_slash (plane_texts (metadata (snd bp)))) (CHR ''/'') =
          length (planes (metadata (snd bp))) - 1"
    using T by blast
  have "cout_text (trace p') =
      '' seq: 000012 bytesused: 7/9 size 640x480 stride 640 format R8 sec 0'' @ endl"
    using line
    by (simp add: initial_proc_def example_request_def example_buffer_def metadata_line_def
        plane_texts_def size_line_def example_vendor_def example_cfg_def dec_examples
        replicate_4)
  moreover have "join_slash (plane_texts (metadata example_buffer)) = ''7/9''"
    by (simp add: example_buffer_def plane_texts_def dec_examples)
  moreover have "count_list (join_slash (plane_texts (metadata example_buffer))) (CHR ''/'') = 1"
    using cnt by (simp add: example_request_def example_buffer_def)
  ultimately show ?thesis
    using p' by simp
qed

subsection \<open>Configuration calls of start\<close>

lemma config_call_simps [simp]:
  "config_call (Cam_configure cam cfg)" "config_call Cfg_validate"
  "\<not> config_call (Cout s)" "\<not> config_call (Cerr s)" "\<not> config_call CM_start"
  "\<not> config_call CM_stop" "\<not> config_call (Cam_acquire cam)"
  "\<not> config_call (Cam_generateConfiguration cam roles)" "\<not> config_call (New_allocator cam)"
  "\<not> config_call (Alloc_allocate st)" "\<not> config_call (Cam_createRequest cam)"
  "\<not> config_call (Req_addBuffer a b c)" "\<not> config_call (Req_set_control a ctl v)"
  "\<not> config_call (Connect_requestCompleted cam)" "\<not> config_call (Cam_start cam)"
  by (simp_all add: config_call_def)

lemma config_listing [simp]: "filter config_call (listing_events V) = []"
  by (simp add: listing_events_def filter_empty_conv)

lemma config_controls [simp]: "filter config_call (map control_line xs) = []"
  by (simp add: filter_empty_conv control_line_def)

lemma config_properties [simp]: "filter config_call (map property_line xs) = []"
  by (simp add: filter_empty_conv property_line_def)

lemma config_allocate [simp]: "filter config_call (allocate_events V i cfgs) = []"
  by (induction cfgs arbitrary: i) simp_all

lemma config_request [simp]: "filter config_call (request_events V cam st i bufs) = []"
proof (induction bufs arbitrary: i)
  case Nil
  show ?case by simp
next
  case (Cons buffer bufs)
  show ?case
    using Cons.IH [of "Suc i"] by (cases "createRequest V i") simp_all
qed

lemma config_acquire:
  "filter config_call (acquire_events V) = [Cam_configure (first_camera V) (requested_config V)]"
  by (simp add: acquire_events_def)

lemma config_validate:
  "filter config_call (validate_events V) =
     [Cfg_validate, Cam_configure (first_camera V) (validated_config V)]"
  by (simp add: validate_events_def)

lemma allocate_loop_configure_ret [simp]:
  "allocate_loop (V\<lparr>configure_ret := f\<rparr>) i cfgs p = allocate_loop V i cfgs p"
  by (induction cfgs arbitrary: i p) (simp_all add: Let_def)

lemma request_loop_configure_ret [simp]:
  "request_loop (V\<lparr>configure_ret := f\<rparr>) cam st i bufs s p = request_loop V cam st i bufs s p"
proof (induction bufs arbitrary: i s p)
  case Nil
  show ?case by simp
next
  case (Cons buffer bufs)
  show ?case
    by (cases "createRequest V i") (simp_all add: Cons.IH Let_def)
qed

lemma start_configure_ret:
  "f 0 = configure_ret V 0 \<Longrightarrow> start (V\<lparr>configure_ret := f\<rparr>) s p = start V s p"
  by (simp add: start_def Let_def split: option.split list.split prod.split bool.split)

text \<open>
  C10. Take a vendor that lists a camera and whose \<open>generateConfiguration\<close> returns a
  configuration with an element 0 (the source tests neither the pointer nor the element).
  Then \<open>start\<close> returns, and the configuration it passes to the first \<open>configure\<close> is the
  default one with the size of element 0 overwritten by width 2592 and height 1944; no
  \<open>configure\<close> or \<open>validate\<close> comes before that call. If the call returns nonzero,
  \<open>start\<close> returns \<open>EXIT_FAILURE\<close> and configures nothing more. Otherwise the
  configuration calls of \<open>start\<close> are, in order, that \<open>configure\<close>, \<open>validate\<close>, and a
  second \<open>configure\<close> with the validated configuration. The return code of the second
  \<open>configure\<close> is not looked at: \<open>start\<close> behaves the same whatever \<open>configure\<close>
  returns after its first call.
\<close>

theorem start_configures_twice:
  assumes "cameras V \<noteq> []"
    and "generateConfiguration V (hd (cameras V)) [Viewfinder] = Some (c # cs)"
  shows "\<exists>rc s' p'. start V s p = Inr (rc, s', p') \<and>
           filter config_call (drop (length (trace p)) (trace p')) =
             (if configure_ret V 0 \<noteq> 0
              then [Cam_configure (hd (cameras V))
                      (c\<lparr>size_width := 2592, size_height := 1944\<rparr> # cs)]
              else [Cam_configure (hd (cameras V))
                      (c\<lparr>size_width := 2592, size_height := 1944\<rparr> # cs),
                    Cfg_validate,
                    Cam_configure (hd (cameras V))
                      (map (validate V)
                         (c\<lparr>size_width := 2592, size_height := 1944\<rparr> # cs))]) \<and>
           (configure_ret V 0 \<noteq> 0 \<longrightarrow> rc = EXIT_FAILURE) \<and>
           (\<forall>f. f 0 = configure_ret V 0 \<longrightarrow>
              start (V\<lparr>configure_ret := f\<rparr>) s p = start V s p)"
proof -
  let ?r = "start_result V s p"
  let ?cfg = "c\<lparr>size_width := 2592, size_height := 1944\<rparr> # cs"
  have fc: "first_camera V = hd (cameras V)"
    by (simp add: first_camera_def)
  have rq: "requested_config V = ?cfg"
    using assms(2) by (simp add: requested_config_def default_config_def fc)
  have cfgs: "filter config_call (drop (length (trace p)) (trace (snd (snd ?r)))) =
             (if configure_ret V 0 \<noteq> 0
              then [Cam_configure (hd (cameras V)) ?cfg]
              else [Cam_configure (hd (cameras V)) ?cfg, Cfg_validate,
                    Cam_configure (hd (cameras V)) (map (validate V) ?cfg)])"
    using assms(1)
    by (simp add: start_result_def config_acquire config_validate fc validated_config_def rq)
  have rc: "configure_ret V 0 \<noteq> 0 \<longrightarrow> fst ?r = EXIT_FAILURE"
    using assms(1) by (simp add: start_result_def)
  have "start_fault V = None"
    using assms by (simp add: start_fault_def fc)
  then have st: "start V s p = Inr (fst ?r, fst (snd ?r), snd (snd ?r))"
    by (simp add: start_returns)
  have big: "start V s p = Inr (fst ?r, fst (snd ?r), snd (snd ?r)) \<and>
           filter config_call (drop (length (trace p)) (trace (snd (snd ?r)))) =
             (if configure_ret V 0 \<noteq> 0
              then [Cam_configure (hd (cameras V)) ?cfg]
              else [Cam_configure (hd (cameras V)) ?cfg, Cfg_validate,
                    Cam_configure (hd (cameras V)) (map (validate V) ?cfg)]) \<and>
           (configure_ret V 0 \<noteq> 0 \<longrightarrow> fst ?r = EXIT_FAILURE) \<and>
           (\<forall>f. f 0 = configure_ret V 0 \<longrightarrow>
              start (V\<lparr>configure_ret := f\<rparr>) s p = start V s p)"
    using st cfgs rc start_configure_ret by blast
  from big show ?thesis
    by (intro exI)
qed

subsection \<open>Monitors\<close>

lemma phase_inert: "\<not> lifecycle_call c \<Longrightarrow> phase_step ph c = Some ph"
  by (cases c) (simp_all add: lifecycle_call_def phase_step_def)

lemma credit_inert:
  "\<not> lifecycle_call c \<Longrightarrow> credit_step rid k c = Some k"
  by (cases c) (simp_all add: lifecycle_call_def credit_step_def)

lemma requeue_inert:
  "\<not> lifecycle_call c \<Longrightarrow> requeue_step cam Looping c = Some Looping"
  by (cases c) (simp_all add: lifecycle_call_def requeue_step_def)

lemma lifecycle_call_simps [simp]:
  "lifecycle_call (Cam_acquire cam)" "lifecycle_call (Cam_configure cam cfg)"
  "lifecycle_call (Alloc_allocate st)" "lifecycle_call (Cam_queueRequest cam r)"
  "lifecycle_call (Req_reuse r f)" "lifecycle_call (Cam_release cam)"
  "lifecycle_call (Sig_requestCompleted r rst)" "lifecycle_call Loop_exec"
  "\<not> lifecycle_call (Cout s)" "\<not> lifecycle_call (Cerr s)" "\<not> lifecycle_call CM_start"
  "\<not> lifecycle_call CM_stop" "\<not> lifecycle_call (Cam_generateConfiguration cam roles)"
  "\<not> lifecycle_call Cfg_validate" "\<not> lifecycle_call (New_allocator cam)"
  "\<not> lifecycle_call (Cam_createRequest cam)" "\<not> lifecycle_call (Req_addBuffer a b c)"
  "\<not> lifecycle_call (Req_set_control a ctl v)"
  "\<not> lifecycle_call (Connect_requestCompleted cam)" "\<not> lifecycle_call (Cam_start cam)"
  "\<not> lifecycle_call (Map_frame_buffer n)" "\<not> lifecycle_call (Imwrite pth img)"
  "\<not> lifecycle_call (Cam_stop cam)"
  "\<not> lifecycle_call (Alloc_free alloc sp)" "\<not> lifecycle_call (Delete_allocator alloc)"
  "\<not> lifecycle_call Cam_reset"
  by (simp_all add: lifecycle_call_def)

lemma quiet_print_planes: "c \<in> set (print_planes k sz pls) \<Longrightarrow> \<not> lifecycle_call c"
  by (induction pls arbitrary: k) (auto simp: Let_def split: if_splits)

lemma quiet_buffers_events: "c \<in> set (buffers_events V n bps) \<Longrightarrow> \<not> lifecycle_call c"
  by (induction bps arbitrary: n) (auto simp: buffer_events_def dest: quiet_print_planes)

lemma quiet_listing: "c \<in> set (listing_events V) \<Longrightarrow> \<not> lifecycle_call c"
  by (auto simp: listing_events_def)

lemma quiet_request_events:
  "c \<in> set (request_events V cam st i bufs) \<Longrightarrow> \<not> lifecycle_call c"
proof (induction bufs arbitrary: i)
  case Nil
  then show ?case by simp
next
  case (Cons buffer bufs)
  then show ?case
    by (cases "createRequest V i") (auto split: if_splits)
qed

lemma capture_call_lifecycle: "capture_call c \<Longrightarrow> lifecycle_call c"
  by (cases c) (simp_all add: capture_call_def)

lemma credit_quiet: "\<not> capture_call c \<Longrightarrow> credit_step rid k c = Some k"
  by (cases c) (simp_all add: capture_call_def credit_step_def)

lemma exec_steps_monitored:
  assumes "exec_steps V steps p = Inr p'" and "camera p = Some cam"
    and "I (pending (loop p)) st"
    and sig: "\<And>pend st r. I pend st \<Longrightarrow>
           \<exists>st1. step st (Sig_requestCompleted (req_id r) (status r)) = Some st1 \<and>
                 I (if status r = RequestCancelled then pend else pend @ [ProcessRequest r]) st1"
    and disp: "\<And>pend st r. I (ProcessRequest r # pend) st \<Longrightarrow>
           \<exists>st1. run step st [Req_reuse (req_id r) ReuseBuffers,
                               Cam_queueRequest cam (req_id r)] = Some st1 \<and> I pend st1"
    and quiet: "\<And>pend st c. I pend st \<Longrightarrow> \<not> lifecycle_call c \<Longrightarrow> step st c = Some st"
  shows "\<exists>X st1. trace p' = trace p @ X \<and> run step st X = Some st1 \<and>
           I (pending (loop p')) st1 \<and> camera p' = Some cam"
  using assms(1,2,3)
proof (induction steps arbitrary: p st)
  case Nil
  then show ?case by simp
next
  case (Cons x steps)
  show ?case
  proof (cases x)
    case (Completion r)
    let ?p1 = "requestComplete r (emit [Sig_requestCompleted (req_id r) (status r)] p)"
    have ex: "exec_steps V steps ?p1 = Inr p'"
      using Cons.prems(1) Completion by simp
    have cam1: "camera ?p1 = Some cam"
      using Cons.prems(2) by (simp add: requestComplete_def)
    have tr1: "trace ?p1 = trace p @ [Sig_requestCompleted (req_id r) (status r)]"
      by (simp add: requestComplete_def)
    have pend1: "pending (loop ?p1) =
        (if status r = RequestCancelled then pending (loop p)
         else pending (loop p) @ [ProcessRequest r])"
      by (simp add: requestComplete_def callLater_def)
    obtain st1 where s1: "step st (Sig_requestCompleted (req_id r) (status r)) = Some st1"
      and i1: "I (pending (loop ?p1)) st1"
      using sig [OF Cons.prems(3), of r] pend1 by auto
    obtain X st2 where "trace p' = trace ?p1 @ X" "run step st1 X = Some st2"
      "I (pending (loop p')) st2" "camera p' = Some cam"
      using Cons.IH [OF ex cam1 i1] by blast
    then have "trace p' = trace p @ (Sig_requestCompleted (req_id r) (status r) # X) \<and>
        run step st (Sig_requestCompleted (req_id r) (status r) # X) = Some st2 \<and>
        I (pending (loop p')) st2 \<and> camera p' = Some cam"
      using tr1 s1 by simp
    then show ?thesis by blast
  next
    case Dispatch
    show ?thesis
    proof (cases "pending (loop p)")
      case Nil
      then have "exec_steps V steps p = Inr p'"
        using Cons.prems(1) Dispatch by simp
      then show ?thesis
        using Cons.IH [OF _ Cons.prems(2) Cons.prems(3)] by blast
    next
      case (Cons cb cbs)
      obtain r where cb: "cb = ProcessRequest r" by (cases cb)
      let ?p0 = "p\<lparr>loop := (loop p)\<lparr>pending := cbs\<rparr>\<rparr>"
      let ?B = "buffers_events V (clock_calls p) (buffers r)"
      let ?R = "[Req_reuse (req_id r) ReuseBuffers, Cam_queueRequest cam (req_id r)]"
      obtain p1 where pr: "processRequest V r ?p0 = Inr p1" and ex: "exec_steps V steps p1 = Inr p'"
        using \<open>exec_steps V (x # steps) p = Inr p'\<close> Dispatch Cons cb
        by (auto split: sum.splits)
      have wm: "well_mapped (buffers r)"
        using pr by (auto simp: processRequest_eq split: if_splits)
      have p1: "p1 = ?p0\<lparr>clock_calls := clock_calls p + 2 * length (buffers r),
                          trace := trace p @ ?B @ ?R\<rparr>"
        using pr wm \<open>camera p = Some cam\<close> by (simp add: processRequest_eq)
      have cam1: "camera p1 = Some cam" and pend1: "pending (loop p1) = cbs"
        and tr1: "trace p1 = trace p @ ?B @ ?R"
        using \<open>camera p = Some cam\<close> by (simp_all add: p1)
      have i0: "I (ProcessRequest r # cbs) st"
        using \<open>I (pending (loop p)) st\<close> Cons cb by simp
      have rb: "run step st ?B = Some st"
        using quiet [OF i0] quiet_buffers_events by (intro run_inert) blast
      obtain st1 where r1: "run step st ?R = Some st1" and i1: "I cbs st1"
        using disp [OF i0] by blast
      have i1': "I (pending (loop p1)) st1"
        using i1 pend1 by simp
      obtain X st2 where "trace p' = trace p1 @ X" "run step st1 X = Some st2"
        "I (pending (loop p')) st2" "camera p' = Some cam"
        using Cons.IH [OF ex cam1 i1'] by blast
      note rest = this
      have "run step st (?B @ ?R @ X) = Some st2"
        using rb r1 rest(2) by (simp only: run_append option.case)
      moreover have "trace p' = trace p @ (?B @ ?R @ X)"
        using rest(1) tr1 by simp
      ultimately show ?thesis
        using rest(3,4) by blast
    qed
  qed
qed

lemma exec_steps_phase:
  assumes "exec_steps V steps p = Inr p'" and "camera p = Some cam"
    and "ph = Allocated \<or> ph = Capturing"
  shows "\<exists>X ph1. trace p' = trace p @ X \<and> run phase_step ph X = Some ph1 \<and>
           (ph1 = Allocated \<or> ph1 = Capturing) \<and> camera p' = Some cam"
proof (rule exec_steps_monitored [where I = "\<lambda>pend ph. ph = Allocated \<or> ph = Capturing"
      and step = phase_step and st = ph, OF assms(1,2,3)])
  fix pend :: "callback list" and ph r
  assume "ph = Allocated \<or> ph = Capturing"
  then show "\<exists>ph1. phase_step ph (Sig_requestCompleted (req_id r) (status r)) = Some ph1 \<and>
      (ph1 = Allocated \<or> ph1 = Capturing)"
    by (simp add: phase_step_def)
next
  fix pend :: "callback list" and ph r
  assume "ph = Allocated \<or> ph = Capturing"
  then show "\<exists>ph1. run phase_step ph
      [Req_reuse (req_id r) ReuseBuffers, Cam_queueRequest cam (req_id r)] = Some ph1 \<and>
      (ph1 = Allocated \<or> ph1 = Capturing)"
    by (auto simp: phase_step_def)
next
  fix pend :: "callback list" and ph c
  assume "\<not> lifecycle_call c"
  then show "phase_step ph c = Some ph"
    by (rule phase_inert)
qed

lemma exec_steps_credit:
  assumes "exec_steps V steps p = Inr p'" and "camera p = Some cam"
    and "credits rid (pending (loop p)) = k"
  shows "\<exists>X. trace p' = trace p @ X \<and>
           run (credit_step rid) k X = Some (credits rid (pending (loop p')))"
proof -
  have "\<exists>X k1. trace p' = trace p @ X \<and> run (credit_step rid) k X = Some k1 \<and>
          credits rid (pending (loop p')) = k1 \<and> camera p' = Some cam"
  proof (rule exec_steps_monitored [where I = "\<lambda>pend k. credits rid pend = k"
        and step = "credit_step rid" and st = k, OF assms(1,2,3)])
    fix pend k r
    assume "credits rid pend = k"
    then show "\<exists>k1. credit_step rid k (Sig_requestCompleted (req_id r) (status r)) = Some k1 \<and>
        credits rid (if status r = RequestCancelled then pend else pend @ [ProcessRequest r]) = k1"
      by (simp add: credit_step_def credits_def)
  next
    fix pend k r
    assume "credits rid (ProcessRequest r # pend) = k"
    then show "\<exists>k1. run (credit_step rid) k
        [Req_reuse (req_id r) ReuseBuffers, Cam_queueRequest cam (req_id r)] = Some k1 \<and>
        credits rid pend = k1"
      by (auto simp: credit_step_def credits_def)
  next
    fix pend k c
    assume "\<not> lifecycle_call c"
    then show "credit_step rid k c = Some k"
      by (rule credit_inert)
  qed
  then show ?thesis by blast
qed

lemma exec_steps_requeue:
  assumes "exec_steps V steps p = Inr p'" and "camera p = Some cam"
  shows "\<exists>X. trace p' = trace p @ X \<and> run (requeue_step cam) Looping X = Some Looping"
proof -
  have "\<exists>X e. trace p' = trace p @ X \<and> run (requeue_step cam) Looping X = Some e \<and>
          e = Looping \<and> camera p' = Some cam"
  proof (rule exec_steps_monitored [where I = "\<lambda>pend e. e = Looping"
        and step = "requeue_step cam" and st = Looping, OF assms(1,2)])
    show "Looping = Looping" by simp
  next
    fix pend :: "callback list" and e :: queue_state and r
    assume "e = Looping"
    then show "\<exists>e1. requeue_step cam e (Sig_requestCompleted (req_id r) (status r)) = Some e1 \<and>
        e1 = Looping"
      by (simp add: requeue_step_def)
  next
    fix pend :: "callback list" and e :: queue_state and r
    assume "e = Looping"
    then show "\<exists>e1. run (requeue_step cam) e
        [Req_reuse (req_id r) ReuseBuffers, Cam_queueRequest cam (req_id r)] = Some e1 \<and>
        e1 = Looping"
      by (simp add: requeue_step_def)
  next
    fix pend :: "callback list" and e :: queue_state and c
    assume "e = Looping" "\<not> lifecycle_call c"
    then show "requeue_step cam e c = Some e"
      by (simp add: requeue_inert)
  qed
  then show ?thesis by blast
qed

text \<open>
  What the completion count of a trace that passes the monitor says in numbers.
\<close>

lemma credit_count:
  "run (credit_step rid) k es = Some k1 \<Longrightarrow>
   k + length (filter (completed rid) es) = k1 + length (filter (reused rid) es)"
proof (induction es arbitrary: k)
  case Nil
  then show ?case by simp
next
  case (Cons c es)
  obtain k2 where s: "credit_step rid k c = Some k2" and r: "run (credit_step rid) k2 es = Some k1"
    using Cons.prems by (auto split: option.splits)
  have "k + length (filter (completed rid) [c]) = k2 + length (filter (reused rid) [c])"
    using s by (cases c) (auto simp: credit_step_def completed_def reused_def split: if_splits)
  with Cons.IH [OF r] show ?case
    by (simp split: if_splits)
qed

subsection \<open>The monitors on the parts of a run\<close>

lemma phase_step_simps [simp]:
  "phase_step ph (Cam_acquire cam) = (if ph = Idle then Some Acquired else None)"
  "phase_step ph (Cam_configure cam cfg) =
     (if ph = Acquired \<or> ph = Configured then Some Configured else None)"
  "phase_step ph (Alloc_allocate st) =
     (if ph = Configured \<or> ph = Allocated then Some Allocated else None)"
  "phase_step ph (Cam_queueRequest cam r) =
     (if ph = Allocated \<or> ph = Capturing then Some Capturing else None)"
  "phase_step ph (Req_reuse r f) = (if ph = Allocated \<or> ph = Capturing then Some ph else None)"
  "phase_step ph (Cam_release cam) =
     (if ph = Allocated \<or> ph = Capturing then Some Released else None)"
  "phase_step ph (Sig_requestCompleted r rst) = Some ph"
  by (simp_all add: phase_step_def)

lemma phase_step_quiet [simp]: "\<not> lifecycle_call c \<Longrightarrow> phase_step ph c = Some ph"
  by (rule phase_inert)

lemma start_success:
  assumes "start V s p = Inr (EXIT_SUCCESS, s1, p1)"
  shows "cameras V \<noteq> []" "allocate_ok V 0 (validated_config V)"
    "request_ok V 0 (alloc_buffers V (capture_stream V))"
    "s1 = s\<lparr>cm := Some CameraManager,
             allocator := Some (FrameBufferAllocator (first_camera V)),
             stream := Some (capture_stream V),
             requests := requests s @
               created_requests V (capture_stream V) 0 (alloc_buffers V (capture_stream V))\<rparr>"
    "p1 = (emit (start_events V) p)\<lparr>camera := Some (first_camera V)\<rparr>"
proof -
  have r: "start_result V s p = (EXIT_SUCCESS, s1, p1)"
    using assms start_Inr by blast
  show ok: "cameras V \<noteq> []" "allocate_ok V 0 (validated_config V)"
    "request_ok V 0 (alloc_buffers V (capture_stream V))"
    using r EXIT_codes_distinct by (auto simp: start_result_def split: if_splits)
  have c: "configure_ret V 0 = 0"
    using r EXIT_codes_distinct by (auto simp: start_result_def split: if_splits)
  show "s1 = s\<lparr>cm := Some CameraManager,
             allocator := Some (FrameBufferAllocator (first_camera V)),
             stream := Some (capture_stream V),
             requests := requests s @
               created_requests V (capture_stream V) 0 (alloc_buffers V (capture_stream V))\<rparr>"
    using r ok c by (simp add: start_result_def)
  show "p1 = (emit (start_events V) p)\<lparr>camera := Some (first_camera V)\<rparr>"
    using r ok c by (simp add: start_result_def start_events_def)
qed

lemma length_created_requests:
  "request_ok V i bufs \<Longrightarrow> length (created_requests V st i bufs) = length bufs"
  by (induction bufs arbitrary: i) auto

lemma quiet_controls: "c \<in> set (map control_line xs) \<Longrightarrow> \<not> lifecycle_call c"
  by (auto simp: control_line_def)

lemma quiet_properties: "c \<in> set (map property_line xs) \<Longrightarrow> \<not> lifecycle_call c"
  by (auto simp: property_line_def)

lemma run_phase_quiet:
  "\<forall>c \<in> set xs. \<not> lifecycle_call c \<Longrightarrow> run phase_step ph xs = Some ph"
  by (rule run_inert) (simp add: phase_inert)

lemma run_credit_quiet:
  "\<forall>c \<in> set xs. \<not> capture_call c \<Longrightarrow> run (credit_step rid) k xs = Some k"
  by (rule run_inert) (simp add: credit_quiet)

lemma queue_call_lifecycle: "queue_call c \<Longrightarrow> lifecycle_call c"
  by (cases c) (simp_all add: queue_call_def)

lemma requeue_quiet:
  "\<not> queue_call c \<Longrightarrow> requeue_step cam (Queueing ids) c = Some (Queueing ids)"
  "\<not> queue_call c \<Longrightarrow> requeue_step cam Looping c = Some Looping"
  by (cases c; simp add: queue_call_def requeue_step_def)+

lemma run_queueing_quiet:
  "\<forall>c \<in> set xs. \<not> queue_call c \<Longrightarrow>
   run (requeue_step cam) (Queueing ids) xs = Some (Queueing ids)"
  by (rule run_inert) (simp add: requeue_quiet)

lemma run_looping_quiet:
  "\<forall>c \<in> set xs. \<not> queue_call c \<Longrightarrow> run (requeue_step cam) Looping xs = Some Looping"
  by (rule run_inert) (simp add: requeue_quiet)

lemma phase_acquire: "run phase_step Idle (acquire_events V) = Some Configured"
proof -
  have "run phase_step Idle ([CM_start] @ listing_events V) = Some Idle"
    by (rule run_phase_quiet) (auto dest: quiet_listing)
  then show ?thesis
    by (simp add: acquire_events_def run_append del: append.simps)
qed

lemma phase_validate: "run phase_step Configured (validate_events V) = Some Configured"
proof -
  have "run phase_step Configured
      ([Cout (''controls:'' @ endl)] @ map control_line (cam_controls V) @
       [Cout (''properies:'' @ endl)] @ map property_line (cam_properties V) @
       [New_allocator (first_camera V)]) = Some Configured"
    by (rule run_phase_quiet) (auto simp: control_line_def property_line_def)
  then show ?thesis
    by (simp add: validate_events_def run_append del: append.simps)
qed

lemma phase_allocate:
  "allocate_ok V i cfgs \<Longrightarrow> ph = Configured \<or> ph = Allocated \<Longrightarrow>
   run phase_step ph (allocate_events V i cfgs) = Some (if cfgs = [] then ph else Allocated)"
proof (induction cfgs arbitrary: i ph)
  case Nil
  show ?case by simp
next
  case (Cons cfg cfgs)
  then have "run phase_step Allocated (allocate_events V (Suc i) cfgs) = Some Allocated"
    by (cases "cfgs = []") simp_all
  with Cons.prems show ?case
    by auto
qed

lemma validated_config_not_Nil: "validated_config V \<noteq> []"
  by (simp add: validated_config_def requested_config_def default_config_def)

lemma phase_start:
  assumes "allocate_ok V 0 (validated_config V)"
  shows "run phase_step Idle (start_events V) = Some Allocated"
proof -
  have a: "run phase_step Configured (allocate_events V 0 (validated_config V)) = Some Allocated"
    using phase_allocate [OF assms, of Configured] validated_config_not_Nil by simp
  have b: "run phase_step Allocated
      (request_events V (first_camera V) (capture_stream V) 0 (alloc_buffers V (capture_stream V)))
        = Some Allocated"
    by (rule run_phase_quiet) (auto dest: quiet_request_events)
  have c: "run phase_step Allocated
      [Connect_requestCompleted (first_camera V), Cam_start (first_camera V)] = Some Allocated"
    by simp
  show ?thesis
    unfolding start_events_def
    by (simp only: run_append phase_acquire phase_validate a b c option.case)
qed

lemma capture_allocate: "c \<in> set (allocate_events V i cfgs) \<Longrightarrow> \<not> capture_call c"
  by (induction cfgs arbitrary: i) (auto simp: capture_call_def split: if_splits)

lemma capture_start: "c \<in> set (start_events V) \<Longrightarrow> \<not> capture_call c"
proof -
  assume "c \<in> set (start_events V)"
  then consider "c \<in> set (listing_events V)" | "c \<in> set (map control_line (cam_controls V))"
    | "c \<in> set (map property_line (cam_properties V))"
    | "c \<in> set (allocate_events V 0 (validated_config V))"
    | "c \<in> set (request_events V (first_camera V) (capture_stream V) 0
          (alloc_buffers V (capture_stream V)))"
    | "\<not> capture_call c"
    by (auto simp: start_events_def acquire_events_def validate_events_def capture_call_def)
  then show "\<not> capture_call c"
  proof cases
    case 1
    then show ?thesis using quiet_listing capture_call_lifecycle by blast
  next
    case 2
    then show ?thesis using quiet_controls capture_call_lifecycle by blast
  next
    case 3
    then show ?thesis using quiet_properties capture_call_lifecycle by blast
  next
    case 4
    then show ?thesis by (rule capture_allocate)
  next
    case 5
    then show ?thesis using quiet_request_events capture_call_lifecycle by blast
  next
    case 6
    then show ?thesis .
  qed
qed

lemma queue_allocate: "c \<in> set (allocate_events V i cfgs) \<Longrightarrow> \<not> queue_call c"
  by (induction cfgs arbitrary: i) (auto simp: queue_call_def split: if_splits)

lemma queue_start: "c \<in> set (start_events V) \<Longrightarrow> \<not> queue_call c"
proof -
  assume "c \<in> set (start_events V)"
  then consider "c \<in> set (listing_events V)" | "c \<in> set (map control_line (cam_controls V))"
    | "c \<in> set (map property_line (cam_properties V))"
    | "c \<in> set (allocate_events V 0 (validated_config V))"
    | "c \<in> set (request_events V (first_camera V) (capture_stream V) 0
          (alloc_buffers V (capture_stream V)))"
    | "\<not> queue_call c"
    by (auto simp: start_events_def acquire_events_def validate_events_def queue_call_def)
  then show "\<not> queue_call c"
  proof cases
    case 1
    then show ?thesis using quiet_listing queue_call_lifecycle by blast
  next
    case 2
    then show ?thesis using quiet_controls queue_call_lifecycle by blast
  next
    case 3
    then show ?thesis using quiet_properties queue_call_lifecycle by blast
  next
    case 4
    then show ?thesis by (rule queue_allocate)
  next
    case 5
    then show ?thesis using quiet_request_events queue_call_lifecycle by blast
  next
    case 6
    then show ?thesis .
  qed
qed

lemma queue_finish: "c \<in> set (finish_events cam alloc sp) \<Longrightarrow> \<not> queue_call c"
  by (auto simp: finish_events_def queue_call_def)

lemma requeue_queue:
  "run (requeue_step cam) (Queueing (map req_id rs @ ids)) (queue_events cam rs) =
     Some (Queueing ids)"
  by (induction rs) (simp_all add: queue_events_def requeue_step_def)

lemma capture_queue: "c \<in> set (queue_events cam rs) \<Longrightarrow> \<not> capture_call c"
  by (auto simp: queue_events_def capture_call_def)

lemma capture_finish: "c \<in> set (finish_events cam alloc sp) \<Longrightarrow> \<not> capture_call c"
  by (auto simp: finish_events_def capture_call_def)

lemma phase_queue:
  "ph = Allocated \<or> ph = Capturing \<Longrightarrow>
   run phase_step ph (queue_events cam rs) = Some (if rs = [] then ph else Capturing)"
proof (induction rs arbitrary: ph)
  case Nil
  show ?case by (simp add: queue_events_def)
next
  case (Cons r rs)
  have "run phase_step Capturing (queue_events cam rs) = Some Capturing"
    using Cons.IH [of Capturing] by (cases "rs = []") simp_all
  with Cons.prems show ?case
    by (auto simp: queue_events_def)
qed

lemma phase_finish:
  "ph = Allocated \<or> ph = Capturing \<Longrightarrow>
   run phase_step ph (finish_events cam alloc sp) = Some Released"
  by (auto simp: finish_events_def)

lemma go_trace:
  assumes "go V s1 p1 = Inr (rc2, s2, p2)" and "camera p1 = Some cam"
    and "pending (loop p1) = []"
  shows "\<exists>X. trace p2 = trace p1 @ queue_events cam (requests s1) @ [Loop_exec] @ X @
                  [Cout (exit_line (exec_ret V))] \<and>
             (\<exists>ph. run phase_step (if requests s1 = [] then Allocated else Capturing) X = Some ph \<and>
                   (ph = Allocated \<or> ph = Capturing)) \<and>
             (\<forall>rid. run (credit_step rid) 0 X = Some (credits rid (pending (loop p2)))) \<and>
             run (requeue_step cam) Looping X = Some Looping \<and>
             camera p2 = Some cam \<and> s2 = s1 \<and> rc2 = EXIT_SUCCESS"
proof -
  let ?Q = "queue_events cam (requests s1)"
  have q: "queue_requests (requests s1) p1 = Inr (emit ?Q p1)"
    using assms(2) by (simp add: queue_requests_eq queue_events_def)
  let ?pe = "emit [Loop_exec] ((emit ?Q p1)\<lparr>loop := timeout (loop (emit ?Q p1)) TIMEOUT_SEC\<rparr>)"
  obtain p3 where ex: "exec_steps V (loop_schedule V) ?pe = Inr p3"
    and p2: "p2 = emit [Cout (exit_line (exec_ret V))] p3" and s2: "s2 = s1"
    and rc: "rc2 = EXIT_SUCCESS"
    using assms(1) q by (auto simp: go_eq split: sum.splits)
  have cam: "camera ?pe = Some cam" and pend: "pending (loop ?pe) = []"
    and tre: "trace ?pe = trace p1 @ ?Q @ [Loop_exec]"
    using assms(2,3) by (simp_all add: timeout_def)
  let ?X = "drop (length (trace ?pe)) (trace p3)"
  have X: "trace p3 = trace ?pe @ Y \<Longrightarrow> Y = ?X" for Y
    by simp
  have phq: "(if requests s1 = [] then Allocated else Capturing) = Allocated \<or>
      (if requests s1 = [] then Allocated else Capturing) = Capturing"
    by simp
  obtain Y ph where "trace p3 = trace ?pe @ Y"
    "run phase_step (if requests s1 = [] then Allocated else Capturing) Y = Some ph"
    "ph = Allocated \<or> ph = Capturing" "camera p3 = Some cam"
    using exec_steps_phase [OF ex cam phq] by blast
  then have ph: "run phase_step (if requests s1 = [] then Allocated else Capturing) ?X = Some ph"
    "ph = Allocated \<or> ph = Capturing" and cam3: "camera p3 = Some cam"
    and tr3: "trace p3 = trace ?pe @ ?X"
    using X by auto
  have cr: "run (credit_step rid) 0 ?X = Some (credits rid (pending (loop p2)))" for rid
  proof -
    have "credits rid (pending (loop ?pe)) = 0"
      using pend by (simp add: credits_def)
    then obtain Y where "trace p3 = trace ?pe @ Y"
      "run (credit_step rid) 0 Y = Some (credits rid (pending (loop p3)))"
      using exec_steps_credit [OF ex cam] by blast
    then show ?thesis using X by (auto simp: p2)
  qed
  have rq: "run (requeue_step cam) Looping ?X = Some Looping"
  proof -
    obtain Y where "trace p3 = trace ?pe @ Y" "run (requeue_step cam) Looping Y = Some Looping"
      using exec_steps_requeue [OF ex cam] by blast
    then show ?thesis using X by auto
  qed
  have "trace p2 = trace p1 @ ?Q @ [Loop_exec] @ ?X @ [Cout (exit_line (exec_ret V))]"
    using p2 tr3 tre by simp
  then show ?thesis
    using ph cr rq cam3 p2 s2 rc by auto
qed

subsection \<open>The lifecycle of a run\<close>

lemma first_camera_hd: "first_camera V = hd (cameras V)"
  by (simp add: first_camera_def)

lemma credit_queue_simp [simp]:
  "credit_step rid k (Cam_queueRequest cam r) = Some k"
  by (simp add: credit_step_def)

lemma run_credit_queue: "run (credit_step rid) k (queue_events cam rs) = Some k"
  by (rule run_inert) (auto simp: queue_events_def)

text \<open>
  C3. Take a process whose event loop has nothing queued, and let \<open>start\<close> succeed, \<open>go\<close>
  return and \<open>finish\<close> return, in this order. Then the effects of the three calls together
  pass the lifecycle monitor from \<open>Idle\<close> to \<open>Released\<close>: the camera is acquired first, then
  configured, then buffers are allocated, then requests are queued and requeued, and the
  camera is released last. They pass the queue monitor: before the loop runs, exactly the
  requests \<open>start\<close> created are queued, each once and in order, by \<open>go\<close>; once the loop runs,
  a request is queued again only by a \<open>reuse(ReuseBuffers)\<close> followed at once by
  \<open>queueRequest\<close> of the same request on the camera \<open>start\<close> acquired. For every request,
  each \<open>reuse\<close> is matched by an earlier completion of that request that was not cancelled,
  so no request is requeued before it has completed; and the completions of a request that
  were not cancelled are, in number, its reuses plus its calls still queued in the event loop
  at the end: every such completion whose call the loop ran was answered by a reuse and a
  requeue before the release, and the others were left in the queue. \<open>start\<close> creates one
  request for each allocated buffer. A \<open>processRequest\<close> that returns ends with the \<open>reuse\<close>
  and the \<open>queueRequest\<close> of its request.
\<close>

theorem request_lifecycle_order:
  assumes "pending (loop p) = []"
    and "start V s p = Inr (EXIT_SUCCESS, s1, p1)"
    and "go V s1 p1 = Inr (rc2, s2, p2)"
    and "finish s2 p2 = Inr (rc3, s3, p3)"
  shows "run phase_step Idle (drop (length (trace p)) (trace p3)) = Some Released \<and>
         run (requeue_step (hd (cameras V))) (Queueing (map req_id (requests s1)))
           (drop (length (trace p)) (trace p3)) = Some Looping \<and>
         (\<forall>rid. run (credit_step rid) 0 (drop (length (trace p)) (trace p3)) =
                  Some (credits rid (pending (loop p3))) \<and>
                length (filter (completed rid) (drop (length (trace p)) (trace p3))) =
                  length (filter (reused rid) (drop (length (trace p)) (trace p3))) +
                  credits rid (pending (loop p3))) \<and>
         (\<exists>rest. drop (length (trace p1)) (trace p2) =
            map (\<lambda>r. Cam_queueRequest (hd (cameras V)) (req_id r)) (requests s1) @
            Loop_exec # rest) \<and>
         length (requests s1) = length (requests s) + length (alloc_buffers V (capture_stream V)) \<and>
         (\<forall>r q. processRequest V r p1 = Inr q \<longrightarrow>
            drop (length (trace q) - 2) (trace q) =
              [Req_reuse (req_id r) ReuseBuffers, Cam_queueRequest (hd (cameras V)) (req_id r)])"
proof -
  let ?cam = "first_camera V"
  let ?E = "start_events V"
  let ?Q = "queue_events ?cam (requests s1)"
  let ?C = "[Cout (exit_line (exec_ret V))]"
  note ss = start_success [OF assms(2)]
  have cam1: "camera p1 = Some ?cam" and pend1: "pending (loop p1) = []"
    and tr1: "trace p1 = trace p @ ?E"
    using assms(1) by (simp_all add: ss(5))
  obtain X where tr2: "trace p2 = trace p1 @ ?Q @ [Loop_exec] @ X @ ?C"
    and phX: "\<exists>ph. run phase_step (if requests s1 = [] then Allocated else Capturing) X = Some ph \<and>
                   (ph = Allocated \<or> ph = Capturing)"
    and crX: "\<forall>rid. run (credit_step rid) 0 X = Some (credits rid (pending (loop p2)))"
    and rqX: "run (requeue_step ?cam) Looping X = Some Looping"
    and cam2: "camera p2 = Some ?cam" and s2: "s2 = s1"
    using go_trace [OF assms(3) cam1 pend1] by blast
  let ?F = "finish_events ?cam (FrameBufferAllocator ?cam) (stream s2)"
  have al: "allocator s2 = Some (FrameBufferAllocator ?cam)" and cm: "cm s2 = Some CameraManager"
    unfolding s2 by (subst ss(4), simp)+
  have p3: "trace p3 = trace p2 @ ?F" "loop p3 = loop p2"
    using assms(4) cam2 al cm by (auto simp: finish_eq finish_events_def)
  note tr3 = p3(1)
  have T: "drop (length (trace p)) (trace p3) = ?E @ ?Q @ [Loop_exec] @ X @ ?C @ ?F"
    by (simp add: tr3 tr2 tr1)
  obtain ph where ph: "run phase_step (if requests s1 = [] then Allocated else Capturing) X = Some ph"
    "ph = Allocated \<or> ph = Capturing"
    using phX by blast
  have phase: "run phase_step Idle (?E @ ?Q @ [Loop_exec] @ X @ ?C @ ?F) = Some Released"
  proof -
    have a: "run phase_step Idle ?E = Some Allocated"
      by (rule phase_start [OF ss(2)])
    have b: "run phase_step Allocated ?Q = Some (if requests s1 = [] then Allocated else Capturing)"
      using phase_queue [of Allocated ?cam "requests s1"] by simp
    have c: "run phase_step st [Loop_exec] = Some st" for st
      by (simp add: phase_step_def)
    have d: "run phase_step ph ?C = Some ph"
      by simp
    have e: "run phase_step ph ?F = Some Released"
      by (rule phase_finish [OF ph(2)])
    show ?thesis
      by (simp only: run_append a b c d e ph(1) option.case)
  qed
  have credit: "run (credit_step rid) 0 (?E @ ?Q @ [Loop_exec] @ X @ ?C @ ?F) =
      Some (credits rid (pending (loop p3)))" for rid
  proof -
    let ?k = "credits rid (pending (loop p3))"
    have k: "run (credit_step rid) 0 X = Some ?k"
      using crX by (simp add: p3(2))
    have a: "run (credit_step rid) 0 ?E = Some 0"
      by (rule run_credit_quiet) (simp add: capture_start)
    have b: "run (credit_step rid) 0 ?Q = Some 0"
      by (rule run_credit_queue)
    have c: "run (credit_step rid) 0 [Loop_exec] = Some 0"
      by (simp add: credit_step_def)
    have d: "run (credit_step rid) ?k ?C = Some ?k"
      by (simp add: credit_step_def)
    have e: "run (credit_step rid) ?k ?F = Some ?k"
      by (rule run_credit_quiet) (simp add: capture_finish)
    show ?thesis
      by (simp only: run_append a b c d e k option.case)
  qed
  have count: "length (filter (completed rid) (?E @ ?Q @ [Loop_exec] @ X @ ?C @ ?F)) =
      length (filter (reused rid) (?E @ ?Q @ [Loop_exec] @ X @ ?C @ ?F)) +
      credits rid (pending (loop p3))" for rid
    using credit_count [OF credit [of rid]] by simp
  have requeue: "run (requeue_step ?cam) (Queueing (map req_id (requests s1)))
      (?E @ ?Q @ [Loop_exec] @ X @ ?C @ ?F) = Some Looping"
  proof -
    let ?ids = "map req_id (requests s1)"
    have a: "run (requeue_step ?cam) (Queueing ?ids) ?E = Some (Queueing ?ids)"
      by (rule run_queueing_quiet) (simp add: queue_start)
    have b: "run (requeue_step ?cam) (Queueing ?ids) ?Q = Some (Queueing [])"
      using requeue_queue [of ?cam "requests s1" "[]"] by simp
    have c: "run (requeue_step ?cam) (Queueing []) [Loop_exec] = Some Looping"
      by (simp add: requeue_step_def)
    have d: "run (requeue_step ?cam) Looping ?C = Some Looping"
      by (simp add: requeue_step_def)
    have e: "run (requeue_step ?cam) Looping ?F = Some Looping"
      by (rule run_looping_quiet) (simp add: queue_finish)
    show ?thesis
      by (simp only: run_append a b c d e rqX option.case)
  qed
  have queued: "\<exists>rest. drop (length (trace p1)) (trace p2) =
            map (\<lambda>r. Cam_queueRequest (hd (cameras V)) (req_id r)) (requests s1) @
            Loop_exec # rest"
    by (simp add: tr2 queue_events_def first_camera_hd)
  have len: "length (requests s1) =
      length (requests s) + length (alloc_buffers V (capture_stream V))"
    by (subst ss(4)) (simp add: length_created_requests [OF ss(3)])
  have last2: "drop (length (trace q) - 2) (trace q) =
      [Req_reuse (req_id r) ReuseBuffers, Cam_queueRequest (hd (cameras V)) (req_id r)]"
    if "processRequest V r p1 = Inr q" for r q
    using that cam1
    by (auto simp: processRequest_eq first_camera_hd split: if_splits)
  show ?thesis
    using phase credit count requeue queued len last2
    by (simp only: T first_camera_hd) blast
qed

lemma example_start:
  "\<exists>s1 p1. start example_vendor new_simple_cam initial_proc = Inr (EXIT_SUCCESS, s1, p1)"
  by (metis prod.collapse start_returns example_fault example_start_fst)

lemma initial_pending: "pending (loop initial_proc) = []" "trace initial_proc = []"
  by (simp_all add: initial_proc_def)

lemma cut_short_fault: "start_fault cut_short_vendor = None"
  by (simp add: start_fault_def cut_short_vendor_def example_vendor_def)

lemmas example_run_defs =
  start_result_def example_vendor_def capture_stream_def
  validated_config_def requested_config_def default_config_def first_camera_def
  acquire_events_def validate_events_def listing_events_def new_simple_cam_def
  initial_proc_def emit_def go_eq finish_eq queue_requests_eq requestComplete_def
  callLater_def timeout_def prepared_def processRequest_eq well_mapped_def
  example_request_def example_buffer_def

text \<open>
  Not every completed request is requeued. With \<open>cut_short_vendor\<close>, \<open>start\<close> succeeds
  and \<open>go\<close> and \<open>finish\<close> return; request 0 is queued by \<open>go\<close> and completes with
  status \<open>RequestComplete\<close>, \<open>requestComplete\<close> queues \<open>processRequest\<close> for it, the
  loop exits, and \<open>finish\<close> releases the camera: the run holds no \<open>reuse\<close> and no second
  \<open>queueRequest\<close>, and the call is still queued at the end.
\<close>

theorem completed_request_not_requeued:
  "lifecycle_of_run cut_short_vendor new_simple_cam initial_proc =
     Some ([Cam_acquire example_camera,
            Cam_configure example_camera [example_cfg\<lparr>size_width := 2592, size_height := 1944\<rparr>],
            Cam_configure example_camera [example_cfg\<lparr>size_width := 2592, size_height := 1944\<rparr>],
            Alloc_allocate 1,
            Cam_queueRequest example_camera 0,
            Loop_exec,
            Sig_requestCompleted 0 RequestComplete,
            Cam_release example_camera],
           [ProcessRequest example_request])"
  by (simp add: lifecycle_of_run_def start_eq cut_short_fault)
     (simp add: cut_short_vendor_def example_run_defs example_cfg_def)

theorem request_lifecycle_order_witness:
  "\<exists>s1 p1 rc2 s2 p2 rc3 s3 p3.
     start example_vendor new_simple_cam initial_proc = Inr (EXIT_SUCCESS, s1, p1) \<and>
     go example_vendor s1 p1 = Inr (rc2, s2, p2) \<and>
     finish s2 p2 = Inr (rc3, s3, p3) \<and>
     run phase_step Idle (trace p3) = Some Released \<and>
     run (requeue_step example_camera) (Queueing [0]) (trace p3) = Some Looping \<and>
     run (credit_step 0) 0 (trace p3) = Some 0 \<and>
     length (filter (completed 0) (trace p3)) = 1 \<and>
     length (filter (reused 0) (trace p3)) = 1 \<and>
     pending (loop p3) = [] \<and>
     length (requests s1) = 1"
proof -
  obtain s1 p1 where st: "start example_vendor new_simple_cam initial_proc = Inr (EXIT_SUCCESS, s1, p1)"
    using example_start by blast
  note ss = start_success [OF st]
  have cam1: "camera p1 = Some example_camera" and pend1: "pending (loop p1) = []"
    by (simp_all add: ss(5) example_names initial_pending)
  obtain p2 where g: "go example_vendor s1 p1 = Inr (EXIT_SUCCESS, s1, p2)"
    using go_returns [of p1 example_camera example_vendor s1] cam1 pend1 example_state_mapped
    by auto
  have cam2: "camera p2 = Some example_camera"
    using go_trace [OF g cam1 pend1] by blast
  have al: "allocator s1 = Some (FrameBufferAllocator example_camera)"
    and cm: "cm s1 = Some CameraManager"
    by (subst ss(4), simp add: example_names)+
  obtain p3 where f: "finish s1 p2 = Inr (EXIT_SUCCESS, s1, p3)"
    using cam2 al cm by (simp add: finish_eq)
  note T = request_lifecycle_order [OF initial_pending(1) st g f]
  have ids: "map req_id (requests s1) = [0]"
    by (subst ss(4)) (simp add: example_vendor_def new_simple_cam_def prepared_def)
  have g': "go example_vendor s1 p1 = Inr (EXIT_SUCCESS, s1, p2)"
    using g .
  have p2: "pending (loop p2) = [] \<and> filter (reused 0) (trace p2) = [Req_reuse 0 ReuseBuffers]"
    using g' unfolding ss(4) ss(5)
    by (auto simp: example_run_defs start_events_def reused_def buffer_events_def)
  have p3: "pending (loop p3) = []" "trace p3 = trace p2 @
      finish_events example_camera (FrameBufferAllocator example_camera) (stream s1)"
    using f p2 cam2 al cm by (auto simp: finish_eq finish_events_def)
  have cr: "credits 0 (pending (loop p3)) = 0"
    by (simp add: p3 credits_def)
  have re: "length (filter (reused 0) (trace p3)) = 1"
    using p2 by (simp add: p3(2) finish_events_def reused_def)
  have "hd (cameras example_vendor) = example_camera"
    by (simp add: example_vendor_def)
  moreover have "length (alloc_buffers example_vendor (capture_stream example_vendor)) = 1"
    by (simp add: example_vendor_def)
  moreover have "requests new_simple_cam = []"
    by (simp add: new_simple_cam_def)
  ultimately have "run phase_step Idle (trace p3) = Some Released \<and>
     run (requeue_step example_camera) (Queueing [0]) (trace p3) = Some Looping \<and>
     run (credit_step 0) 0 (trace p3) = Some 0 \<and>
     length (filter (completed 0) (trace p3)) = 1 \<and>
     length (filter (reused 0) (trace p3)) = 1 \<and>
     pending (loop p3) = [] \<and> length (requests s1) = 1"
    using T ids cr re p3(1) by (simp add: initial_pending)
  with st g f show ?thesis by blast
qed

theorem start_configures_twice_witness:
  "(\<exists>rc s' p'. start example_vendor new_simple_cam initial_proc = Inr (rc, s', p') \<and>
      filter config_call (trace p') =
        [Cam_configure example_camera [example_cfg\<lparr>size_width := 2592, size_height := 1944\<rparr>],
         Cfg_validate,
         Cam_configure example_camera [example_cfg\<lparr>size_width := 2592, size_height := 1944\<rparr>]]) \<and>
   (\<exists>s' p'. start (example_vendor\<lparr>configure_ret := \<lambda>n. - 22\<rparr>) new_simple_cam initial_proc =
        Inr (EXIT_FAILURE, s', p') \<and>
      filter config_call (trace p') =
        [Cam_configure example_camera [example_cfg\<lparr>size_width := 2592, size_height := 1944\<rparr>]]) \<and>
   start (example_vendor\<lparr>configure_ret := \<lambda>n. if n = 0 then 0 else - 22\<rparr>)
     new_simple_cam initial_proc = start example_vendor new_simple_cam initial_proc"
proof -
  let ?W = "example_vendor\<lparr>configure_ret := \<lambda>n. - 22\<rparr>"
  let ?cfg = "[example_cfg\<lparr>size_width := 2592, size_height := 1944\<rparr>]"
  have c: "cameras example_vendor \<noteq> []" "cameras ?W \<noteq> []"
    by (simp_all add: example_vendor_def)
  have gen: "generateConfiguration example_vendor (hd (cameras example_vendor)) [Viewfinder] =
      Some (example_cfg # [])"
    "generateConfiguration ?W (hd (cameras ?W)) [Viewfinder] = Some (example_cfg # [])"
    by (simp_all add: example_vendor_def)
  have v: "hd (cameras example_vendor) = example_camera" "hd (cameras ?W) = example_camera"
    "configure_ret example_vendor 0 = 0" "validate example_vendor = (\<lambda>cfg. cfg)"
    by (simp_all add: example_vendor_def)
  obtain rc s1 p1 where a: "start example_vendor new_simple_cam initial_proc = Inr (rc, s1, p1)"
    and a2: "filter config_call (drop (length (trace initial_proc)) (trace p1)) =
             (if configure_ret example_vendor 0 \<noteq> 0
              then [Cam_configure (hd (cameras example_vendor)) ?cfg]
              else [Cam_configure (hd (cameras example_vendor)) ?cfg,
                    Cfg_validate,
                    Cam_configure (hd (cameras example_vendor))
                      (map (validate example_vendor) ?cfg)])"
    and indep: "\<forall>f. f 0 = configure_ret example_vendor 0 \<longrightarrow>
       start (example_vendor\<lparr>configure_ret := f\<rparr>) new_simple_cam initial_proc =
       start example_vendor new_simple_cam initial_proc"
    using start_configures_twice [OF c(1) gen(1), of new_simple_cam initial_proc] by blast
  obtain rc2 s2 p2 where b: "start ?W new_simple_cam initial_proc = Inr (rc2, s2, p2)"
    and b2: "filter config_call (drop (length (trace initial_proc)) (trace p2)) =
             (if configure_ret ?W 0 \<noteq> 0
              then [Cam_configure (hd (cameras ?W)) ?cfg]
              else [Cam_configure (hd (cameras ?W)) ?cfg, Cfg_validate,
                    Cam_configure (hd (cameras ?W)) (map (validate ?W) ?cfg)])"
    and b3: "configure_ret ?W 0 \<noteq> 0 \<longrightarrow> rc2 = EXIT_FAILURE"
    using start_configures_twice [OF c(2) gen(2), of new_simple_cam initial_proc] by blast
  have a3: "filter config_call (trace p1) =
       [Cam_configure example_camera ?cfg, Cfg_validate, Cam_configure example_camera ?cfg]"
    using a2 by (simp add: v initial_pending)
  have b4: "filter config_call (trace p2) = [Cam_configure example_camera ?cfg]"
    "rc2 = EXIT_FAILURE"
    using b2 b3 by (simp_all add: v initial_pending)
  have "start (example_vendor\<lparr>configure_ret := \<lambda>n. if n = 0 then 0 else - 22\<rparr>)
      new_simple_cam initial_proc = start example_vendor new_simple_cam initial_proc"
    using indep [THEN spec, of "\<lambda>n. if n = 0 then 0 else - 22"] by (simp add: v)
  with a a3 b b4 show ?thesis by blast
qed

end
